theory Spec2Isabelle
  imports Main "HOL-Library.Multiset"
begin

section \<open>Folder-scoped preference resolution: \<open>FoldersPreferencesProvider\<close>\<close>

text \<open>
  A shallow embedding of
  \<^verbatim>\<open>packages/preferences/src/browser/folders-preferences-provider.ts\<close>.
  The class aggregates one \<open>FolderPreferenceProvider\<close> per (folder, config URI) pair.
  Its collaborators (the workspace service, \<open>PreferenceConfigurations\<close>, the provider
  factory, the folder providers themselves and \<open>Path.relativity\<close>) live in other
  files; they appear here as fields of records, so every theorem holds for whatever
  these collaborators compute.
\<close>

subsection \<open>Data model\<close>

text \<open>
  A \<open>URI\<close> object is represented by its string form, so \<open>toString\<close> is the identity.
  An optional argument or an \<open>undefined\<close> result is an \<open>option\<close>. A URI object is
  always truthy; a string is truthy when it is not empty.
\<close>

type_synonym URI = string

text \<open>The state of a promise once the event loop has run as far as it ever will.\<close>

datatype 'e promise = Pending | Fulfilled | Rejected 'e

text \<open>
  The part of \<open>FolderPreferenceProvider\<close> the class uses. \<open>p_getConfigUri0\<close> is the call
  \<open>provider.getConfigUri()\<close> without argument, whose result is passed to \<open>getName\<close> and
  \<open>getPath\<close> unchecked; \<open>p_getConfigUri\<close> is the call \<open>provider.getConfigUri(resourceUri)\<close>
  whose result may be \<open>undefined\<close>. \<open>p_setPreference\<close> gives how the awaited write
  ends: \<open>Inr b\<close> when its promise resolves to the boolean \<open>b\<close>, \<open>Inl e\<close> when it rejects
  with the error \<open>e\<close> (the provider throws); a write that never settles is left out. \<open>p_ready\<close> is the state the provider's
  \<open>ready\<close> promise ends in. Within one call of a method of the class a provider answers the same question in
  the same way.
\<close>

record 'v FolderPreferenceProvider =
  p_folderUri :: URI
  p_getConfigUri0 :: URI
  p_getConfigUri :: "string option \<Rightarrow> URI option"
  p_resolve :: "string \<Rightarrow> string option \<Rightarrow> 'v option \<times> URI option"
  p_getPreferences :: "string \<rightharpoonup> 'v"
  p_setPreference :: "string \<Rightarrow> 'v \<Rightarrow> string option \<Rightarrow> string + bool"
  p_ready :: "string promise"

text \<open>A workspace root (\<open>FileStat\<close>); only its \<open>uri\<close> is read.\<close>

record FileStat =
  uri :: string

text \<open>
  The injected collaborators. \<open>path_relativity env f r\<close> stands for
  \<open>f.path.relativity(new URI(r).path)\<close>; \<open>factory\<close> stands for
  \<open>folderPreferenceProviderFactory({ folder, configUri })\<close>.
\<close>

record 'v collaborators =
  getUris :: "URI \<Rightarrow> URI list"
  isConfigUri :: "URI option \<Rightarrow> bool"
  getName :: "URI \<Rightarrow> string"
  getPath :: "URI \<Rightarrow> string"
  isSectionName :: "string \<Rightarrow> bool"
  getConfigName :: string
  path_relativity :: "URI \<Rightarrow> string \<Rightarrow> int"
  factory :: "FileStat \<Rightarrow> URI \<Rightarrow> 'v FolderPreferenceProvider"

text \<open>
  \<open>this.providers\<close> is a JavaScript \<open>Map\<close> from keys to providers. It iterates in
  insertion order, so it is an association list; \<open>set\<close> on a fresh key appends.
\<close>

type_synonym 'v provider_map = "(string \<times> 'v FolderPreferenceProvider) list"

definition map_values :: "'v provider_map \<Rightarrow> 'v FolderPreferenceProvider list" where
  "map_values m = map snd m"

definition map_keys :: "'v provider_map \<Rightarrow> string list" where
  "map_keys m = map fst m"

definition map_has :: "'v provider_map \<Rightarrow> string \<Rightarrow> bool" where
  "map_has m k = (k \<in> set (map fst m))"

definition map_get :: "'v provider_map \<Rightarrow> string \<Rightarrow> 'v FolderPreferenceProvider option" where
  "map_get m k = map_of m k"

definition map_delete :: "'v provider_map \<Rightarrow> string \<Rightarrow> 'v provider_map" where
  "map_delete m k = filter (\<lambda>e. fst e \<noteq> k) m"

fun map_set :: "'v provider_map \<Rightarrow> string \<Rightarrow> 'v FolderPreferenceProvider \<Rightarrow> 'v provider_map" where
  "map_set [] k p = [(k, p)]"
| "map_set ((k', p') # m) k p = (if k' = k then (k, p) # m else (k', p') # map_set m k p)"

subsection \<open>\<open>getProviders\<close>\<close>

text \<open>
  The loop state of \<open>getProviders\<close>: the variable \<open>folder\<close> (its \<open>relativity\<close> and its
  optional \<open>uri\<close>) and the local map \<open>providers\<close> from folder URI strings to arrays.
\<close>

record 'v selection =
  sel_relativity :: int
  sel_uri :: "string option"
  sel_groups :: "string \<rightharpoonup> 'v FolderPreferenceProvider list"

definition getProviders_step ::
  "'v collaborators \<Rightarrow> string \<Rightarrow> 'v selection \<Rightarrow> 'v FolderPreferenceProvider \<Rightarrow> 'v selection" where
  "getProviders_step env resourceUri s provider =
     (let u = p_folderUri provider;
          folderProviders = (case sel_groups s u of Some l \<Rightarrow> l | None \<Rightarrow> []) @ [provider];
          groups = (sel_groups s)(u \<mapsto> folderProviders);
          relativity = path_relativity env (p_folderUri provider) resourceUri
      in if relativity \<ge> 0 \<and> sel_relativity s \<le> relativity
         then \<lparr>sel_relativity = relativity, sel_uri = Some u, sel_groups = groups\<rparr>
         else s\<lparr>sel_groups := groups\<rparr>)"

definition getProviders_init :: "'v selection" where
  "getProviders_init = \<lparr>sel_relativity = - 1, sel_uri = None, sel_groups = Map.empty\<rparr>"

definition getProviders ::
  "'v collaborators \<Rightarrow> 'v provider_map \<Rightarrow> string option \<Rightarrow> 'v FolderPreferenceProvider list" where
  "getProviders env providers resourceUri =
     (case resourceUri of
        None \<Rightarrow> []
      | Some r \<Rightarrow>
          if r = [] then []
          else
            (let s = foldl (getProviders_step env r) getProviders_init (map_values providers)
             in case sel_uri s of
                  None \<Rightarrow> []
                | Some u \<Rightarrow>
                    if u = [] then []
                    else (case sel_groups s u of Some l \<Rightarrow> l | None \<Rightarrow> [])))"

subsection \<open>\<open>resolve\<close>\<close>

fun resolve_loop ::
  "'v FolderPreferenceProvider list \<Rightarrow> string \<Rightarrow> string option \<Rightarrow> 'v option \<times> URI option" where
  "resolve_loop [] preferenceName resourceUri = (None, None)"
| "resolve_loop (provider # rest) preferenceName resourceUri =
     (case p_resolve provider preferenceName resourceUri of
        (v, configUri) \<Rightarrow>
          if v \<noteq> None \<and> configUri \<noteq> None then (v, configUri)
          else resolve_loop rest preferenceName resourceUri)"

definition resolve ::
  "'v collaborators \<Rightarrow> 'v provider_map \<Rightarrow> string \<Rightarrow> string option \<Rightarrow> 'v option \<times> URI option" where
  "resolve env providers preferenceName resourceUri =
     resolve_loop (getProviders env providers resourceUri) preferenceName resourceUri"

subsection \<open>\<open>getConfigUri\<close> and \<open>getDomain\<close>\<close>

fun getConfigUri_loop ::
  "'v collaborators \<Rightarrow> 'v FolderPreferenceProvider list \<Rightarrow> string option \<Rightarrow> URI option" where
  "getConfigUri_loop env [] resourceUri = None"
| "getConfigUri_loop env (provider # rest) resourceUri =
     (let configUri = p_getConfigUri provider resourceUri
      in if isConfigUri env configUri then configUri
         else getConfigUri_loop env rest resourceUri)"

definition getConfigUri :: "'v collaborators \<Rightarrow> 'v provider_map \<Rightarrow> string option \<Rightarrow> URI option" where
  "getConfigUri env providers resourceUri =
     getConfigUri_loop env (map_values providers) resourceUri"

text \<open>\<open>roots\<close> is what \<open>workspaceService.tryGetRoots()\<close> returns at the time of the call.\<close>

definition getDomain :: "FileStat list \<Rightarrow> string list" where
  "getDomain roots = map uri roots"

subsection \<open>\<open>getPreferences\<close>\<close>

text \<open>
  The loop state is the object \<open>result\<close> and the set \<open>collectedConfigs\<close> (kept as the
  list of the names added so far). \<open>Object.assign(result, preferences)\<close> is \<open>++\<close>: the
  keys of \<open>preferences\<close> overwrite.
\<close>

definition getPreferences_step ::
  "'v collaborators \<Rightarrow> string option \<Rightarrow> (string \<rightharpoonup> 'v) \<times> string list \<Rightarrow>
   'v FolderPreferenceProvider \<Rightarrow> (string \<rightharpoonup> 'v) \<times> string list" where
  "getPreferences_step env resourceUri acc provider =
     (case acc of (result, collectedConfigs) \<Rightarrow>
        (case p_getConfigUri provider resourceUri of
           None \<Rightarrow> (result, collectedConfigs)
         | Some configUri \<Rightarrow>
             (let configName = getName env configUri
              in if configName \<in> set collectedConfigs then (result, collectedConfigs)
                 else (result ++ p_getPreferences provider, collectedConfigs @ [configName]))))"

definition getPreferences ::
  "'v collaborators \<Rightarrow> 'v provider_map \<Rightarrow> string option \<Rightarrow> (string \<rightharpoonup> 'v)" where
  "getPreferences env providers resourceUri =
     fst (foldl (getPreferences_step env resourceUri) (Map.empty, [])
            (rev (getProviders env providers resourceUri)))"

subsection \<open>\<open>setPreference\<close>\<close>

text \<open>\<open>preferenceName.split('.', 1)[0]\<close>: the text before the first dot, or all of it.\<close>

definition sectionName_of :: "string \<Rightarrow> string" where
  "sectionName_of preferenceName = takeWhile (\<lambda>c. c \<noteq> CHR ''.'') preferenceName"

definition configName_of :: "'v collaborators \<Rightarrow> string \<Rightarrow> string" where
  "configName_of env preferenceName =
     (let sectionName = sectionName_of preferenceName
      in if isSectionName env sectionName then sectionName else getConfigName env)"

text \<open>
  The array \<open>iterator\<close> holds closures. There are three kinds, one per nesting level of
  the arrow functions, each closed over one provider.
\<close>

datatype 'v closure =
  RoundA "'v FolderPreferenceProvider"
| RoundB "'v FolderPreferenceProvider"
| RoundC "'v FolderPreferenceProvider"

text \<open>
  Calling a closure gives the provider it returns, if any, and the closures it pushes
  onto \<open>iterator\<close>. \<open>configPath\<close> is read when the closure runs, after the first loop
  has finished, so it is the final value of that variable.
\<close>

fun call_closure ::
  "'v collaborators \<Rightarrow> string option \<Rightarrow> string option \<Rightarrow> 'v closure \<Rightarrow>
   'v FolderPreferenceProvider option \<times> 'v closure list" where
  "call_closure env resourceUri configPath (RoundA provider) =
     (if p_getConfigUri provider resourceUri \<noteq> None then (Some provider, [])
      else (None, [RoundB provider]))"
| "call_closure env resourceUri configPath (RoundB provider) =
     (if Some (getPath env (p_getConfigUri0 provider)) = configPath then (Some provider, [])
      else (None, [RoundC provider]))"
| "call_closure env resourceUri configPath (RoundC provider) = (Some provider, [])"

text \<open>The first loop: it fixes \<open>configPath\<close> and fills \<open>iterator\<close>.\<close>

definition setPreference_collect ::
  "'v collaborators \<Rightarrow> string option \<Rightarrow> string \<Rightarrow> string option \<times> 'v closure list \<Rightarrow>
   'v FolderPreferenceProvider \<Rightarrow> string option \<times> 'v closure list" where
  "setPreference_collect env resourceUri configName acc provider =
     (case acc of (configPath, iterator) \<Rightarrow>
        (let configPath' =
               (if configPath = None
                then (case p_getConfigUri provider resourceUri of
                        Some configUri \<Rightarrow> Some (getPath env configUri)
                      | None \<Rightarrow> configPath)
                else configPath);
             iterator' =
               (if getName env (p_getConfigUri0 provider) = configName
                then iterator @ [RoundA provider] else iterator)
         in (configPath', iterator')))"

text \<open>
  What a call of \<open>setPreference\<close> does: how its promise ends (\<open>Inr b\<close>: it resolves to
  \<open>b\<close>; \<open>Inl e\<close>: it rejects with \<open>e\<close>), the providers whose \<open>setPreference\<close> it
  awaited, in order, and the number of closures it called. The last two are bookkeeping
  for the theorems. The \<open>await\<close> stands in no \<open>try\<close> block: a write that rejects ends
  the loop and rejects the call.
\<close>

record 'v write_outcome =
  w_result :: "string + bool"
  w_attempts :: "'v FolderPreferenceProvider list"
  w_calls :: nat

fun closure_weight :: "'v closure \<Rightarrow> nat" where
  "closure_weight (RoundA p) = 3"
| "closure_weight (RoundB p) = 2"
| "closure_weight (RoundC p) = 1"

lemma call_closure_weight:
  "sum_list (map closure_weight (snd (call_closure env resourceUri configPath c)))
     < closure_weight c"
  by (cases c) auto

function setPreference_loop ::
  "'v collaborators \<Rightarrow> string \<Rightarrow> 'v \<Rightarrow> string option \<Rightarrow> string option \<Rightarrow>
   'v closure list \<Rightarrow> 'v write_outcome" where
  "setPreference_loop env preferenceName v resourceUri configPath [] =
     \<lparr>w_result = Inr False, w_attempts = [], w_calls = 0\<rparr>"
| "setPreference_loop env preferenceName v resourceUri configPath (next # iterator) =
     (let called = call_closure env resourceUri configPath next;
          iterator' = iterator @ snd called
      in case fst called of
           Some provider \<Rightarrow>
             (case p_setPreference provider preferenceName v resourceUri of
                Inl e \<Rightarrow> \<lparr>w_result = Inl e, w_attempts = [provider], w_calls = 1\<rparr>
              | Inr written \<Rightarrow>
                  if written
                  then \<lparr>w_result = Inr True, w_attempts = [provider], w_calls = 1\<rparr>
                  else (let r = setPreference_loop env preferenceName v resourceUri configPath iterator'
                        in r\<lparr>w_attempts := provider # w_attempts r, w_calls := Suc (w_calls r)\<rparr>))
         | None \<Rightarrow>
             (let r = setPreference_loop env preferenceName v resourceUri configPath iterator'
              in r\<lparr>w_calls := Suc (w_calls r)\<rparr>))"
  by pat_completeness auto
termination
  by (relation "measure (\<lambda>(env, preferenceName, v, resourceUri, configPath, iterator).
                   sum_list (map closure_weight iterator))")
     (auto simp: call_closure_weight)

definition setPreference ::
  "'v collaborators \<Rightarrow> 'v provider_map \<Rightarrow> string \<Rightarrow> 'v \<Rightarrow> string option \<Rightarrow> 'v write_outcome" where
  "setPreference env providers preferenceName v resourceUri =
     (let configName = configName_of env preferenceName;
          candidates = getProviders env providers resourceUri;
          collected = foldl (setPreference_collect env resourceUri configName) (None, []) candidates
      in setPreference_loop env preferenceName v resourceUri (fst collected) (snd collected))"

subsection \<open>\<open>updateProviders\<close>\<close>

text \<open>
  The state of the nested iteration: the map \<open>this.providers\<close>, the set \<open>toDelete\<close>
  (a list without the deleted keys) and, as bookkeeping, the providers created so far.
  \<open>createProvider\<close> calls the factory; it also pushes the provider and the forwarding of
  its change events onto \<open>toDispose\<close>, a collection none of the methods below reads.
\<close>

definition updateProviders_config ::
  "'v collaborators \<Rightarrow> FileStat \<Rightarrow> 'v provider_map \<times> string list \<times> 'v FolderPreferenceProvider list \<Rightarrow>
   URI \<Rightarrow> 'v provider_map \<times> string list \<times> 'v FolderPreferenceProvider list" where
  "updateProviders_config env folder st configUri =
     (case st of (providers, toDelete, created) \<Rightarrow>
        (let key = configUri;
             toDelete' = removeAll key toDelete
         in if \<not> map_has providers key
            then (let provider = factory env folder configUri
                  in (map_set providers key provider, toDelete', created @ [provider]))
            else (providers, toDelete', created)))"

definition updateProviders_folder ::
  "'v collaborators \<Rightarrow> 'v provider_map \<times> string list \<times> 'v FolderPreferenceProvider list \<Rightarrow>
   FileStat \<Rightarrow> 'v provider_map \<times> string list \<times> 'v FolderPreferenceProvider list" where
  "updateProviders_folder env st folder =
     foldl (updateProviders_config env folder) st (getUris env (uri folder))"

text \<open>The last loop: a key still in \<open>toDelete\<close> is removed from the map, then disposed.\<close>

definition updateProviders_dispose ::
  "'v provider_map \<times> 'v FolderPreferenceProvider list \<Rightarrow> string \<Rightarrow>
   'v provider_map \<times> 'v FolderPreferenceProvider list" where
  "updateProviders_dispose st key =
     (case st of (providers, disposed) \<Rightarrow>
        (case map_get providers key of
           Some provider \<Rightarrow> (map_delete providers key, disposed @ [provider])
         | None \<Rightarrow> (providers, disposed)))"

record 'v reconciled =
  r_providers :: "'v provider_map"
  r_created :: "'v FolderPreferenceProvider list"
  r_disposed :: "'v FolderPreferenceProvider list"

definition updateProviders ::
  "'v collaborators \<Rightarrow> FileStat list \<Rightarrow> 'v provider_map \<Rightarrow> 'v reconciled" where
  "updateProviders env roots providers =
     (let toDelete = map_keys providers;
          added = foldl (updateProviders_folder env) (providers, toDelete, []) roots;
          removed = foldl updateProviders_dispose (fst added, []) (fst (snd added))
      in \<lparr>r_providers = fst removed, r_created = snd (snd added), r_disposed = snd removed\<rparr>)"

subsection \<open>\<open>init\<close>\<close>

text \<open>
  \<open>promise.catch(e => console.error(e))\<close>: the new promise and what is logged. A
  rejection becomes a fulfilment.
\<close>

fun catch_log :: "string promise \<Rightarrow> string promise \<times> string list" where
  "catch_log Pending = (Pending, [])"
| "catch_log Fulfilled = (Fulfilled, [])"
| "catch_log (Rejected e) = (Fulfilled, [e])"

text \<open>\<open>Promise.all\<close>: rejected if one is, else pending if one is, else fulfilled.\<close>

fun promise_all :: "'e promise list \<Rightarrow> 'e promise" where
  "promise_all [] = Fulfilled"
| "promise_all (Rejected e # ps) = Rejected e"
| "promise_all (Pending # ps) = (case promise_all ps of Rejected e \<Rightarrow> Rejected e | _ \<Rightarrow> Pending)"
| "promise_all (Fulfilled # ps) = promise_all ps"

record 'v initialised =
  i_providers :: "'v provider_map"
  i_ready :: "string promise"
  i_console :: "string list"

text \<open>
  \<open>init\<close> runs once, on the empty map. \<open>rootsPromise\<close> is the state of
  \<open>workspaceService.roots\<close>: unless it is fulfilled, the code after the \<open>await\<close> never
  runs. \<open>_ready\<close> is resolved in the \<open>then\<close> of \<open>Promise.all\<close> and nowhere else.
  The subscription to \<open>onWorkspaceChanged\<close> only registers \<open>updateProviders\<close> for
  later changes; the promises collected are those of the providers in the map now.
\<close>

definition init ::
  "'v collaborators \<Rightarrow> string promise \<Rightarrow> FileStat list \<Rightarrow> 'v initialised" where
  "init env rootsPromise roots =
     (case rootsPromise of
        Fulfilled \<Rightarrow>
          (let providers = r_providers (updateProviders env roots []);
               readyPromises = map (\<lambda>provider. catch_log (p_ready provider)) (map_values providers)
           in \<lparr>i_providers = providers,
               i_ready = (case promise_all (map fst readyPromises) of
                            Fulfilled \<Rightarrow> Fulfilled | _ \<Rightarrow> Pending),
               i_console = concat (map snd readyPromises)\<rparr>)
      | _ \<Rightarrow> \<lparr>i_providers = [], i_ready = Pending, i_console = []\<rparr>)"

section \<open>Descriptions to compare the code with\<close>

text \<open>
  The Config Name a provider has for a resource: the name of the identity it yields for
  the resource, if it yields one.
\<close>

definition config_name_for ::
  "'v collaborators \<Rightarrow> string option \<Rightarrow> 'v FolderPreferenceProvider \<Rightarrow> string option" where
  "config_name_for env resourceUri p = map_option (getName env) (p_getConfigUri p resourceUri)"

text \<open>
  The providers that contribute to the merged map: a provider is kept when it yields an
  identity for the resource and no provider after it in the list yields an identity of
  the same name.
\<close>

fun representatives ::
  "'v collaborators \<Rightarrow> string option \<Rightarrow> 'v FolderPreferenceProvider list \<Rightarrow>
   'v FolderPreferenceProvider list" where
  "representatives env resourceUri [] = []"
| "representatives env resourceUri (p # ps) =
     (case config_name_for env resourceUri p of
        None \<Rightarrow> representatives env resourceUri ps
      | Some n \<Rightarrow>
          if Some n \<in> set (map (config_name_for env resourceUri) ps)
          then representatives env resourceUri ps
          else p # representatives env resourceUri ps)"

text \<open>The value of key \<open>k\<close> in the first provider of a list that defines \<open>k\<close>.\<close>

definition first_defining :: "'v FolderPreferenceProvider list \<Rightarrow> string \<Rightarrow> 'v option" where
  "first_defining ps k =
     (case find (\<lambda>p. p_getPreferences p k \<noteq> None) ps of
        None \<Rightarrow> None
      | Some p \<Rightarrow> p_getPreferences p k)"

text \<open>
  The write order of \<open>setPreference\<close> in words: among the candidates, the providers
  whose own Config Name is the target name; the reference path, which is the path of the
  identity of the first candidate that yields one for the resource; and the three
  rounds. Round A holds the matching providers that yield an identity for the resource,
  round B those of the rest whose own path is the reference path, round C what is left.
\<close>

definition matching ::
  "'v collaborators \<Rightarrow> string \<Rightarrow> 'v FolderPreferenceProvider list \<Rightarrow> 'v FolderPreferenceProvider list" where
  "matching env configName candidates =
     filter (\<lambda>p. getName env (p_getConfigUri0 p) = configName) candidates"

definition reference_path ::
  "'v collaborators \<Rightarrow> string option \<Rightarrow> 'v FolderPreferenceProvider list \<Rightarrow> string option" where
  "reference_path env resourceUri candidates =
     (case find (\<lambda>p. p_getConfigUri p resourceUri \<noteq> None) candidates of
        None \<Rightarrow> None
      | Some p \<Rightarrow> map_option (getPath env) (p_getConfigUri p resourceUri))"

definition round_A ::
  "string option \<Rightarrow> 'v FolderPreferenceProvider list \<Rightarrow> 'v FolderPreferenceProvider list" where
  "round_A resourceUri ms = filter (\<lambda>p. p_getConfigUri p resourceUri \<noteq> None) ms"

definition round_B ::
  "'v collaborators \<Rightarrow> string option \<Rightarrow> string option \<Rightarrow> 'v FolderPreferenceProvider list \<Rightarrow>
   'v FolderPreferenceProvider list" where
  "round_B env resourceUri reference ms =
     filter (\<lambda>p. p_getConfigUri p resourceUri = None
                 \<and> Some (getPath env (p_getConfigUri0 p)) = reference) ms"

definition round_C ::
  "'v collaborators \<Rightarrow> string option \<Rightarrow> string option \<Rightarrow> 'v FolderPreferenceProvider list \<Rightarrow>
   'v FolderPreferenceProvider list" where
  "round_C env resourceUri reference ms =
     filter (\<lambda>p. p_getConfigUri p resourceUri = None
                 \<and> Some (getPath env (p_getConfigUri0 p)) \<noteq> reference) ms"

definition write_order ::
  "'v collaborators \<Rightarrow> 'v provider_map \<Rightarrow> string \<Rightarrow> string option \<Rightarrow> 'v FolderPreferenceProvider list" where
  "write_order env providers preferenceName resourceUri =
     (let candidates = getProviders env providers resourceUri;
          ms = matching env (configName_of env preferenceName) candidates;
          reference = reference_path env resourceUri candidates
      in round_A resourceUri ms @ round_B env resourceUri reference ms
           @ round_C env resourceUri reference ms)"

text \<open>A list up to and including its first element that satisfies \<open>ok\<close>.\<close>

definition up_to_first :: "('a \<Rightarrow> bool) \<Rightarrow> 'a list \<Rightarrow> 'a list" where
  "up_to_first ok xs = takeWhile (\<lambda>x. \<not> ok x) xs @ take 1 (dropWhile (\<lambda>x. \<not> ok x) xs)"

text \<open>
  How a row of writes settles: as the first write that does not report failure
  (\<open>Inr True\<close> or a rejection \<open>Inl e\<close>), or as \<open>Inr False\<close> when all of them report
  failure.
\<close>

definition first_settled :: "('a \<Rightarrow> string + bool) \<Rightarrow> 'a list \<Rightarrow> string + bool" where
  "first_settled w xs =
     (case find (\<lambda>x. w x \<noteq> Inr False) xs of None \<Rightarrow> Inr False | Some x \<Rightarrow> w x)"

text \<open>
  The folder/config universe of a reconciliation: the config URIs enumerated for the
  roots, in order.
\<close>

definition universe :: "'v collaborators \<Rightarrow> FileStat list \<Rightarrow> URI list" where
  "universe env roots = concat (map (\<lambda>folder. getUris env (uri folder)) roots)"

text \<open>
  A registry is keyed by folder when the key of every provider is a config URI that
  \<open>getUris\<close> enumerates for the folder the provider is bound to. \<open>bound_folders\<close> are
  the folder URIs the providers of a registry are bound to.
\<close>

definition keyed_by_folder :: "'v collaborators \<Rightarrow> 'v provider_map \<Rightarrow> bool" where
  "keyed_by_folder env providers =
     list_all (\<lambda>e. fst e \<in> set (getUris env (p_folderUri (snd e)))) providers"

definition bound_folders :: "'v provider_map \<Rightarrow> URI set" where
  "bound_folders providers = set (map p_folderUri (map_values providers))"

section \<open>A small workspace\<close>

text \<open>
  Concrete collaborators, for evaluating the definitions. The last segment of a config
  URI is its name and the last segment of its parent is its path, as in
  \<open>/a/.t/settings\<close>. Folder \<open>/a\<close> is also mounted as \<open>/a/\<close>: another URI string with
  the same path, hence the same relativity.
\<close>

definition last_segment :: "string \<Rightarrow> string" where
  "last_segment c = rev (takeWhile (\<lambda>x. x \<noteq> CHR ''/'') (rev c))"

definition parent_of :: "string \<Rightarrow> string" where
  "parent_of c = rev (drop 1 (dropWhile (\<lambda>x. x \<noteq> CHR ''/'') (rev c)))"

definition ex_provider ::
  "URI \<Rightarrow> URI \<Rightarrow> (string \<Rightarrow> bool) \<Rightarrow> (string \<rightharpoonup> nat) \<Rightarrow> bool \<Rightarrow> string promise \<Rightarrow>
   nat FolderPreferenceProvider" where
  "ex_provider folder config applies prefs writable rdy =
     \<lparr>p_folderUri = folder,
      p_getConfigUri0 = config,
      p_getConfigUri = (\<lambda>r. case r of None \<Rightarrow> Some config
                              | Some x \<Rightarrow> if applies x then Some config else None),
      p_resolve = (\<lambda>n r. (prefs n, case r of None \<Rightarrow> Some config
                              | Some x \<Rightarrow> if applies x then Some config else None)),
      p_getPreferences = prefs,
      p_setPreference = (\<lambda>n v r. Inr writable),
      p_ready = rdy\<rparr>"

definition ex_env :: "nat collaborators" where
  "ex_env =
     \<lparr>getUris = (\<lambda>f. if f = ''/a'' then [''/a/.t/settings'', ''/a/.t/launch'']
                     else if f = ''/b'' then [''/b/.t/settings''] else []),
      isConfigUri = (\<lambda>u. case u of None \<Rightarrow> False | Some c \<Rightarrow> last_segment c = ''settings''),
      getName = last_segment,
      getPath = (\<lambda>c. last_segment (parent_of c)),
      isSectionName = (\<lambda>n. n = ''launch'' \<or> n = ''tasks''),
      getConfigName = ''settings'',
      path_relativity = (\<lambda>f r. if r = ''/a/x'' \<and> (f = ''/a'' \<or> f = ''/a/'') then 1
                               else if r = ''/b/y'' \<and> f = ''/b'' then 1 else - 1),
      factory = (\<lambda>folder c. ex_provider (uri folder) c (\<lambda>x. True) Map.empty True
                   (if c = ''/a/.t/launch'' then Rejected ''unreadable'' else Fulfilled))\<rparr>"

definition ex_tie :: "nat provider_map" where
  "ex_tie =
     [(''/a/.t/settings'', ex_provider ''/a'' ''/a/.t/settings'' (\<lambda>x. True) Map.empty True Fulfilled),
      (''/a//.t/settings'', ex_provider ''/a/'' ''/a//.t/settings'' (\<lambda>x. True) Map.empty True Fulfilled)]"

definition ex_qa :: "nat FolderPreferenceProvider" where
  "ex_qa = ex_provider ''/a'' ''/a/.v/settings'' (\<lambda>x. False) [''editor.tabSize'' \<mapsto> 9] True Fulfilled"

definition ex_qb :: "nat FolderPreferenceProvider" where
  "ex_qb = ex_provider ''/a'' ''/a/.t/settings'' (\<lambda>x. False) Map.empty False Fulfilled"

definition ex_qc :: "nat FolderPreferenceProvider" where
  "ex_qc = ex_provider ''/a'' ''/a/n/.t/settings'' (\<lambda>x. True) [''editor.tabSize'' \<mapsto> 4] False Fulfilled"

definition ex_launch :: "nat FolderPreferenceProvider" where
  "ex_launch = ex_provider ''/a'' ''/a/.t/launch'' (\<lambda>x. True) [''editor.tabSize'' \<mapsto> 2] True Fulfilled"

definition ex_rounds :: "nat provider_map" where
  "ex_rounds =
     [(''/a/.v/settings'', ex_qa), (''/a/.t/settings'', ex_qb),
      (''/a/n/.t/settings'', ex_qc), (''/a/.t/launch'', ex_launch)]"

text \<open>The provider \<open>ex_qc\<close> with a write that rejects, and the registry with it.\<close>

definition ex_qt :: "nat FolderPreferenceProvider" where
  "ex_qt = ex_qc\<lparr>p_setPreference := (\<lambda>n v r. Inl ''EACCES'')\<rparr>"

definition ex_throw :: "nat provider_map" where
  "ex_throw =
     [(''/a/.v/settings'', ex_qa), (''/a/.t/settings'', ex_qb),
      (''/a/n/.t/settings'', ex_qt), (''/a/.t/launch'', ex_launch)]"

definition ex_outside :: "nat provider_map" where
  "ex_outside =
     [(''/b/.t/settings'', ex_provider ''/b'' ''/b/.t/settings'' (\<lambda>x. True) Map.empty True Fulfilled),
      (''/a/.t/settings'', ex_provider ''/a'' ''/a/.t/settings'' (\<lambda>x. True) Map.empty True Fulfilled)]"

definition ex_d1 :: "nat FolderPreferenceProvider" where
  "ex_d1 = ex_provider ''/a'' ''/a/.t/settings'' (\<lambda>x. True) [''k'' \<mapsto> 1] True Fulfilled"

definition ex_d2 :: "nat FolderPreferenceProvider" where
  "ex_d2 = ex_provider ''/a'' ''/a/.t/launch'' (\<lambda>x. True) [''k'' \<mapsto> 2] True Fulfilled"

definition ex_d3 :: "nat FolderPreferenceProvider" where
  "ex_d3 = ex_provider ''/a'' ''/a/.v/settings'' (\<lambda>x. True) [''j'' \<mapsto> 3] True Fulfilled"

definition ex_dup :: "nat provider_map" where
  "ex_dup = [(''/a/.t/settings'', ex_d1), (''/a/.t/launch'', ex_d2), (''/a/.v/settings'', ex_d3)]"

definition ex_roots :: "FileStat list" where
  "ex_roots = [\<lparr>uri = ''/a''\<rparr>, \<lparr>uri = ''/b''\<rparr>]"

section \<open>Properties\<close>

lemmas ex_defs = ex_env_def ex_provider_def last_segment_def parent_of_def map_values_def
lemmas gp_defs = getProviders_def getProviders_step_def getProviders_init_def Let_def

lemmas q_defs = ex_rounds_def ex_qa_def ex_qb_def ex_qc_def ex_launch_def

lemmas t_defs = ex_throw_def ex_qt_def ex_qa_def ex_qb_def ex_qc_def ex_launch_def

lemmas sp_defs = write_order_def matching_def reference_path_def round_A_def round_B_def
  round_C_def configName_of_def sectionName_of_def

lemmas gpf_defs = getPreferences_def getPreferences_step_def

lemmas d_defs = ex_dup_def ex_d1_def ex_d2_def ex_d3_def

lemmas up_defs = updateProviders_def updateProviders_folder_def updateProviders_config_def
  updateProviders_dispose_def map_has_def map_keys_def map_get_def map_delete_def


subsection \<open>No resource\<close>

text \<open>
  C8. When no resource URI is supplied, \<open>getProviders\<close> returns the empty list and
  \<open>resolve\<close> returns neither a value nor a config URI. The model has no error branch on
  this path: both functions return these values, whatever the registry holds.
\<close>

theorem no_resource_is_degenerate:
  "getProviders env providers None = [] \<and> resolve env providers preferenceName None = (None, None)"
  by (simp add: getProviders_def resolve_def)

subsection \<open>Candidate selection\<close>

lemma step_groups:
  "sel_groups (getProviders_step env r s p) =
     (sel_groups s)(p_folderUri p \<mapsto> (case sel_groups s (p_folderUri p) of Some l \<Rightarrow> l | None \<Rightarrow> []) @ [p])"
  by (simp add: getProviders_step_def Let_def)

lemma foldl_groups:
  "sel_groups (foldl (getProviders_step env r) s xs) u =
     (if filter (\<lambda>p. p_folderUri p = u) xs = [] then sel_groups s u
      else Some ((case sel_groups s u of Some l \<Rightarrow> l | None \<Rightarrow> []) @ filter (\<lambda>p. p_folderUri p = u) xs))"
proof (induction xs arbitrary: s)
  case Nil
  show ?case by simp
next
  case (Cons x xs)
  show ?case
    by (simp add: Cons.IH step_groups)
qed

lemma step_lower:
  "path_relativity env (p_folderUri p) r < 0 \<or> path_relativity env (p_folderUri p) r < sel_relativity s \<Longrightarrow>
   sel_uri (getProviders_step env r s p) = sel_uri s \<and>
   sel_relativity (getProviders_step env r s p) = sel_relativity s"
  by (auto simp: getProviders_step_def Let_def)

lemma foldl_lower:
  "\<forall>p\<in>set ys. path_relativity env (p_folderUri p) r < 0 \<or> path_relativity env (p_folderUri p) r < sel_relativity s \<Longrightarrow>
   sel_uri (foldl (getProviders_step env r) s ys) = sel_uri s \<and>
   sel_relativity (foldl (getProviders_step env r) s ys) = sel_relativity s"
proof (induction ys arbitrary: s)
  case Nil
  show ?case by simp
next
  case (Cons y ys)
  have y: "sel_uri (getProviders_step env r s y) = sel_uri s \<and>
        sel_relativity (getProviders_step env r s y) = sel_relativity s"
    using Cons.prems by (intro step_lower) simp
  have "\<forall>p\<in>set ys. path_relativity env (p_folderUri p) r < 0 \<or>
          path_relativity env (p_folderUri p) r < sel_relativity (getProviders_step env r s y)"
    using Cons.prems y by simp
  from Cons.IH [OF this] y show ?case by simp
qed

lemma step_take:
  "0 \<le> path_relativity env (p_folderUri q) r \<Longrightarrow> sel_relativity s \<le> path_relativity env (p_folderUri q) r \<Longrightarrow>
   sel_uri (getProviders_step env r s q) = Some (p_folderUri q) \<and>
   sel_relativity (getProviders_step env r s q) = path_relativity env (p_folderUri q) r"
  by (simp add: getProviders_step_def Let_def)

lemma foldl_bound:
  "sel_relativity s \<le> m \<Longrightarrow> \<forall>p\<in>set xs. path_relativity env (p_folderUri p) r \<le> m \<Longrightarrow>
   sel_relativity (foldl (getProviders_step env r) s xs) \<le> m"
proof (induction xs arbitrary: s)
  case Nil
  then show ?case by simp
next
  case (Cons x xs)
  have "sel_relativity (getProviders_step env r s x) \<le> m"
    using Cons.prems by (simp add: getProviders_step_def Let_def)
  then show ?case using Cons.IH Cons.prems by simp
qed

text \<open>
  C1, as the code has it. For a non-empty resource URI and providers whose folder URI
  strings are not empty: if no provider's folder has a non-negative relativity to the
  resource, \<open>getProviders\<close> returns nothing; otherwise it returns all providers bound to
  the folder of the provider \<open>q\<close> that is the last one in canonical order among those of
  maximal relativity (every provider before \<open>q\<close> scores at most as much, every provider
  after \<open>q\<close> scores strictly less), in canonical order. On equal maximal relativity the
  folder seen last is chosen.
\<close>

theorem getProviders_selects_last_maximal:
  assumes r: "r \<noteq> []"
    and uris: "\<forall>p\<in>set (map_values providers). p_folderUri p \<noteq> []"
  shows "((\<forall>p\<in>set (map_values providers). path_relativity env (p_folderUri p) r < 0) \<longrightarrow>
            getProviders env providers (Some r) = [])
       \<and> (\<forall>xs q ys.
            map_values providers = xs @ q # ys
            \<and> 0 \<le> path_relativity env (p_folderUri q) r
            \<and> (\<forall>p\<in>set xs. path_relativity env (p_folderUri p) r \<le> path_relativity env (p_folderUri q) r)
            \<and> (\<forall>p\<in>set ys. path_relativity env (p_folderUri p) r < path_relativity env (p_folderUri q) r)
            \<longrightarrow> getProviders env providers (Some r) =
                  filter (\<lambda>p. p_folderUri p = p_folderUri q) (map_values providers))"
proof (intro conjI impI allI)
  assume "\<forall>p\<in>set (map_values providers). path_relativity env (p_folderUri p) r < 0"
  then have "sel_uri (foldl (getProviders_step env r) getProviders_init (map_values providers))
               = sel_uri (getProviders_init :: 'a selection)"
    using foldl_lower [of "map_values providers" env r getProviders_init] by simp
  then show "getProviders env providers (Some r) = []"
    using r by (simp add: getProviders_def getProviders_init_def)
next
  fix xs q ys
  let ?rel = "\<lambda>p. path_relativity env (p_folderUri p) r"
  assume h: "map_values providers = xs @ q # ys \<and> 0 \<le> ?rel q
            \<and> (\<forall>p\<in>set xs. ?rel p \<le> ?rel q) \<and> (\<forall>p\<in>set ys. ?rel p < ?rel q)"
  define s1 where "s1 = foldl (getProviders_step env r) getProviders_init xs"
  define s2 where "s2 = getProviders_step env r s1 q"
  define s3 where "s3 = foldl (getProviders_step env r) s2 ys"
  have s3: "foldl (getProviders_step env r) getProviders_init (map_values providers) = s3"
    using h by (simp add: s1_def s2_def s3_def)
  have "sel_relativity s1 \<le> ?rel q"
    unfolding s1_def using h by (intro foldl_bound) (simp_all add: getProviders_init_def)
  then have s2: "sel_uri s2 = Some (p_folderUri q) \<and> sel_relativity s2 = ?rel q"
    unfolding s2_def using h step_take by blast
  have "sel_uri s3 = sel_uri s2 \<and> sel_relativity s3 = sel_relativity s2"
    unfolding s3_def using h s2 by (intro foldl_lower) simp
  then have u: "sel_uri s3 = Some (p_folderUri q)" using s2 by simp
  have "filter (\<lambda>p. p_folderUri p = p_folderUri q) (map_values providers) \<noteq> []"
    using h by simp
  then have g: "sel_groups s3 (p_folderUri q) =
      Some (filter (\<lambda>p. p_folderUri p = p_folderUri q) (map_values providers))"
    using foldl_groups [of env r getProviders_init "map_values providers" "p_folderUri q"]
    unfolding s3 by (simp add: getProviders_init_def)
  have "p_folderUri q \<noteq> []" using uris h by simp
  then show "getProviders env providers (Some r) =
        filter (\<lambda>p. p_folderUri p = p_folderUri q) (map_values providers)"
    using r u g by (simp add: getProviders_def s3)
qed

text \<open>
  C1 as stated fails: \<open>/a\<close> and \<open>/a/\<close> both have relativity 1 to \<open>/a/x\<close>, \<open>/a\<close> is
  seen first, and the providers of \<open>/a/\<close> are returned. The comparison
  \<open>folder.relativity <= relativity\<close> lets a later folder of equal score replace
  the earlier one.
\<close>

theorem getProviders_tie_counterexample:
  "path_relativity ex_env ''/a'' ''/a/x'' = 1 \<and> path_relativity ex_env ''/a/'' ''/a/x'' = 1
   \<and> map p_folderUri (map_values ex_tie) = [''/a'', ''/a/'']
   \<and> map p_folderUri (getProviders ex_env ex_tie (Some ''/a/x'')) = [''/a/'']"
  by (simp add: ex_env_def ex_tie_def ex_provider_def map_values_def getProviders_def
      getProviders_step_def getProviders_init_def Let_def)

theorem getProviders_selects_last_maximal_witness:
  "''/a/x'' \<noteq> [] \<and> list_all (\<lambda>p. p_folderUri p \<noteq> []) (map_values ex_tie)
   \<and> getProviders ex_env ex_tie (Some ''/a/x'') =
       filter (\<lambda>p. p_folderUri p = ''/a/'') (map_values ex_tie)"
proof -
  have r: "''/a/x'' \<noteq> []" by simp
  have u: "\<forall>p\<in>set (map_values ex_tie). p_folderUri p \<noteq> []"
    by (simp add: ex_tie_def ex_provider_def map_values_def)
  define q where "q = ex_provider ''/a/'' ''/a//.t/settings'' (\<lambda>x. True) Map.empty True Fulfilled"
  define p where "p = ex_provider ''/a'' ''/a/.t/settings'' (\<lambda>x. True) Map.empty True Fulfilled"
  have d: "map_values ex_tie = [p] @ q # []"
    by (simp add: ex_tie_def map_values_def p_def q_def)
  have fq: "p_folderUri q = ''/a/''" and fp: "p_folderUri p = ''/a''"
    by (simp_all add: p_def q_def ex_provider_def)
  have c: "0 \<le> path_relativity ex_env (p_folderUri q) ''/a/x''
      \<and> (\<forall>x\<in>set [p]. path_relativity ex_env (p_folderUri x) ''/a/x'' \<le> path_relativity ex_env (p_folderUri q) ''/a/x'')
      \<and> (\<forall>x\<in>set []. path_relativity ex_env (p_folderUri x) ''/a/x'' < path_relativity ex_env (p_folderUri q) ''/a/x'')"
    by (simp add: fq fp ex_env_def)
  from getProviders_selects_last_maximal [OF r u, of ex_env] d c
  have "getProviders ex_env ex_tie (Some ''/a/x'') =
          filter (\<lambda>x. p_folderUri x = p_folderUri q) (map_values ex_tie)"
    by blast
  then show ?thesis using r u by (simp add: fq list_all_iff)
qed

subsection \<open>Single-value resolution\<close>

lemma resolve_loop_find:
  "resolve_loop ps n r =
     (case find (\<lambda>p. fst (p_resolve p n r) \<noteq> None \<and> snd (p_resolve p n r) \<noteq> None) ps of
        None \<Rightarrow> (None, None) | Some p \<Rightarrow> p_resolve p n r)"
  by (induction ps) (auto split: prod.splits)

text \<open>
  C4. \<open>resolve\<close> scans the candidates of \<open>getProviders\<close> in canonical order and returns
  what the first provider resolves to among those whose own \<open>resolve\<close> gives both a
  defined value and a config URI; with no such candidate it returns neither.
\<close>

theorem resolve_first_match:
  "resolve env providers preferenceName resourceUri =
     (case find (\<lambda>p. fst (p_resolve p preferenceName resourceUri) \<noteq> None
                     \<and> snd (p_resolve p preferenceName resourceUri) \<noteq> None)
             (getProviders env providers resourceUri) of
        None \<Rightarrow> (None, None)
      | Some p \<Rightarrow> p_resolve p preferenceName resourceUri)"
  by (simp add: resolve_def resolve_loop_find)

theorem resolve_first_match_witness:
  "resolve ex_env ex_rounds ''editor.tabSize'' (Some ''/a/x'') = (Some 4, Some ''/a/n/.t/settings'')
   \<and> resolve ex_env ex_rounds ''editor.fontSize'' (Some ''/a/x'') = (None, None)"
  using resolve_first_match [of ex_env ex_rounds "''editor.tabSize''" "Some ''/a/x''"]
    resolve_first_match [of ex_env ex_rounds "''editor.fontSize''" "Some ''/a/x''"]
  by (simp add: q_defs ex_defs gp_defs)

subsection \<open>The merged map\<close>

lemma getPreferences_foldr:
  "foldl (getPreferences_step env r) (Map.empty, []) (rev ps) =
     foldr (\<lambda>p acc. getPreferences_step env r acc p) ps (Map.empty, [])"
  by (simp add: foldl_conv_foldr)

lemma getPreferences_invariant:
  "foldr (\<lambda>p acc. getPreferences_step env r acc p) ps (Map.empty, []) = (m, c) \<Longrightarrow>
   (\<forall>k. m k = first_defining (representatives env r ps) k)
   \<and> (\<forall>n. n \<in> set c \<longleftrightarrow> Some n \<in> set (map (config_name_for env r) ps))"
proof (induction ps arbitrary: m c)
  case Nil
  then show ?case by (auto simp: first_defining_def)
next
  case (Cons p ps)
  obtain m0 c0 where acc: "foldr (\<lambda>p acc. getPreferences_step env r acc p) ps (Map.empty, []) = (m0, c0)"
    by (cases "foldr (\<lambda>p acc. getPreferences_step env r acc p) ps (Map.empty, [])")
  note ih = Cons.IH [OF acc]
  from Cons.prems acc have step: "getPreferences_step env r (m0, c0) p = (m, c)" by simp
  show ?case
  proof (cases "p_getConfigUri p r")
    case None
    then have "m = m0" "c = c0" using step by (simp_all add: getPreferences_step_def)
    then show ?thesis using ih None by (simp add: config_name_for_def)
  next
    case (Some u)
    show ?thesis
    proof (cases "getName env u \<in> set c0")
      case True
      then have "m = m0" "c = c0" using step Some by (simp_all add: getPreferences_step_def)
      then show ?thesis using ih Some True by (auto simp: config_name_for_def)
    next
      case False
      then have mc: "m = m0 ++ p_getPreferences p" "c = c0 @ [getName env u]"
        using step Some by (simp_all add: getPreferences_step_def)
      have reps: "representatives env r (p # ps) = p # representatives env r ps"
        using ih Some False by (simp add: config_name_for_def)
      have fd: "first_defining (p # qs) k =
            (case p_getPreferences p k of None \<Rightarrow> first_defining qs k | Some v \<Rightarrow> Some v)" for qs k
        by (simp add: first_defining_def split: option.splits)
      have "m k = first_defining (p # representatives env r ps) k" for k
        using ih by (simp add: fd mc map_add_def split: option.splits)
      then have "\<forall>k. m k = first_defining (representatives env r (p # ps)) k"
        unfolding reps by blast
      moreover have "\<forall>n. n \<in> set c \<longleftrightarrow> Some n \<in> set (map (config_name_for env r) (p # ps))"
        using ih Some by (auto simp: mc config_name_for_def)
      ultimately show ?thesis by simp
    qed
  qed
qed

text \<open>
  C3, as the code has it. Among the candidates, the providers that contribute are the
  \<open>representatives\<close>: for each Config Name, the last provider in canonical order that
  yields a Config Identity of that name for the resource. The merged map gives each key
  the value of the first contributing provider, in canonical order, that defines it: a
  contributing provider wins every key conflict against the contributing providers after
  it. A provider that does not contribute wins nothing.
\<close>

theorem getPreferences_first_representative_wins:
  "getPreferences env providers resourceUri k =
     first_defining (representatives env resourceUri (getProviders env providers resourceUri)) k"
proof -
  obtain m c where
    "foldr (\<lambda>p acc. getPreferences_step env resourceUri acc p)
       (getProviders env providers resourceUri) (Map.empty, []) = (m, c)"
    by (cases "foldr (\<lambda>p acc. getPreferences_step env resourceUri acc p)
       (getProviders env providers resourceUri) (Map.empty, [])")
  then show ?thesis
    using getPreferences_invariant [of env resourceUri "getProviders env providers resourceUri" m c]
    by (simp add: getPreferences_def getPreferences_foldr)
qed

text \<open>
  C3 as stated fails. The first provider (name \<open>settings\<close>) and the second (name
  \<open>launch\<close>) both define \<open>k\<close>; the third has the name \<open>settings\<close> again, so the first
  does not contribute, and \<open>k\<close> gets the value of the second, later provider.
\<close>

theorem getPreferences_shadowed_counterexample:
  "getProviders ex_env ex_dup (Some ''/a/x'') = [ex_d1, ex_d2, ex_d3]
   \<and> map_option (getName ex_env) (p_getConfigUri ex_d1 (Some ''/a/x'')) = Some ''settings''
   \<and> map_option (getName ex_env) (p_getConfigUri ex_d2 (Some ''/a/x'')) = Some ''launch''
   \<and> map_option (getName ex_env) (p_getConfigUri ex_d3 (Some ''/a/x'')) = Some ''settings''
   \<and> p_getPreferences ex_d1 ''k'' = Some 1
   \<and> p_getPreferences ex_d2 ''k'' = Some 2
   \<and> getPreferences ex_env ex_dup (Some ''/a/x'') ''k'' = Some 2"
  by (simp add: d_defs ex_defs gp_defs gpf_defs)

theorem getPreferences_first_representative_wins_witness:
  "representatives ex_env (Some ''/a/x'') (getProviders ex_env ex_dup (Some ''/a/x''))
     = [ex_d2, ex_d3]
   \<and> getPreferences ex_env ex_dup (Some ''/a/x'') ''k'' = Some 2
   \<and> getPreferences ex_env ex_dup (Some ''/a/x'') ''j'' = Some 3"
proof -
  have reps: "representatives ex_env (Some ''/a/x'') (getProviders ex_env ex_dup (Some ''/a/x''))
                = [ex_d2, ex_d3]"
    by (simp add: d_defs ex_defs gp_defs config_name_for_def)
  have "first_defining [ex_d2, ex_d3] ''k'' = Some 2" and "first_defining [ex_d2, ex_d3] ''j'' = Some 3"
    by (simp_all add: d_defs ex_provider_def first_defining_def)
  then show ?thesis
    using getPreferences_first_representative_wins [of ex_env ex_dup "Some ''/a/x''" "''k''"]
      getPreferences_first_representative_wins [of ex_env ex_dup "Some ''/a/x''" "''j''"]
    by (simp add: reps)
qed

subsection \<open>The aggregate \<open>getConfigUri\<close>\<close>

lemma getConfigUri_loop_find:
  "getConfigUri_loop env ps r =
     (case find (\<lambda>p. isConfigUri env (p_getConfigUri p r)) ps of
        None \<Rightarrow> None | Some p \<Rightarrow> p_getConfigUri p r)"
  by (induction ps) (auto simp: Let_def)

lemma ex_outside_facts:
  "getConfigUri ex_env ex_outside (Some ''/a/x'') = Some ''/b/.t/settings''"
  "find (\<lambda>p. isConfigUri ex_env (p_getConfigUri p (Some ''/a/x''))) (map_values ex_outside)
     = Some (ex_provider ''/b'' ''/b/.t/settings'' (\<lambda>x. True) Map.empty True Fulfilled)"
  "path_relativity ex_env ''/b'' ''/a/x'' < 0"
  "map p_folderUri (getProviders ex_env ex_outside (Some ''/a/x'')) = [''/a'']"
  by (simp_all add: ex_outside_def ex_defs gp_defs getConfigUri_def)

text \<open>
  C10. \<open>getConfigUri\<close> goes through every registered provider in canonical order,
  not through \<open>getProviders\<close>, and returns the first config URI a provider supplies that
  \<open>isConfigUri\<close> accepts. So there are inputs where the URI returned comes from a
  provider whose folder has negative relativity to the resource and is not the folder
  \<open>getProviders\<close> selects, the only one \<open>resolve\<close> and \<open>getPreferences\<close> read.
\<close>

theorem getConfigUri_scans_every_provider:
  "getConfigUri env providers resourceUri =
     (case find (\<lambda>p. isConfigUri env (p_getConfigUri p resourceUri)) (map_values providers) of
        None \<Rightarrow> None
      | Some p \<Rightarrow> p_getConfigUri p resourceUri)
   \<and> (\<exists>(env' :: nat collaborators) providers' r p c.
         find (\<lambda>p. isConfigUri env' (p_getConfigUri p (Some r))) (map_values providers') = Some p
         \<and> p_getConfigUri p (Some r) = Some c
         \<and> getConfigUri env' providers' (Some r) = Some c
         \<and> path_relativity env' (p_folderUri p) r < 0
         \<and> p_folderUri p \<notin> set (map p_folderUri (getProviders env' providers' (Some r))))"
proof
  show "getConfigUri env providers resourceUri =
     (case find (\<lambda>p. isConfigUri env (p_getConfigUri p resourceUri)) (map_values providers) of
        None \<Rightarrow> None
      | Some p \<Rightarrow> p_getConfigUri p resourceUri)"
    by (simp add: getConfigUri_def getConfigUri_loop_find)
next
  let ?p = "ex_provider ''/b'' ''/b/.t/settings'' (\<lambda>x. True) Map.empty True Fulfilled"
  have "p_getConfigUri ?p (Some ''/a/x'') = Some ''/b/.t/settings''" and "p_folderUri ?p = ''/b''"
    by (simp_all add: ex_provider_def)
  then have "find (\<lambda>p. isConfigUri ex_env (p_getConfigUri p (Some ''/a/x''))) (map_values ex_outside) = Some ?p
         \<and> p_getConfigUri ?p (Some ''/a/x'') = Some ''/b/.t/settings''
         \<and> getConfigUri ex_env ex_outside (Some ''/a/x'') = Some ''/b/.t/settings''
         \<and> path_relativity ex_env (p_folderUri ?p) ''/a/x'' < 0
         \<and> p_folderUri ?p \<notin> set (map p_folderUri (getProviders ex_env ex_outside (Some ''/a/x'')))"
    using ex_outside_facts by simp
  then show "\<exists>(env' :: nat collaborators) providers' r p c.
         find (\<lambda>p. isConfigUri env' (p_getConfigUri p (Some r))) (map_values providers') = Some p
         \<and> p_getConfigUri p (Some r) = Some c
         \<and> getConfigUri env' providers' (Some r) = Some c
         \<and> path_relativity env' (p_folderUri p) r < 0
         \<and> p_folderUri p \<notin> set (map p_folderUri (getProviders env' providers' (Some r)))"
    by blast
qed

theorem getConfigUri_scans_every_provider_witness:
  "getConfigUri ex_env ex_outside (Some ''/a/x'') = Some ''/b/.t/settings''
   \<and> map p_folderUri (getProviders ex_env ex_outside (Some ''/a/x'')) = [''/a'']"
  using getConfigUri_scans_every_provider [of ex_env ex_outside "Some ''/a/x''"]
  by (simp add: ex_outside_def ex_defs gp_defs)

subsection \<open>Readiness\<close>

lemma promise_all_catch_fulfilled:
  "promise_all (map (\<lambda>q. fst (catch_log q)) qs) = Fulfilled \<longleftrightarrow> (\<forall>q\<in>set qs. q \<noteq> Pending)"
proof (induction qs)
  case Nil
  show ?case by simp
next
  case (Cons q qs)
  then show ?case by (cases q) (auto split: promise.splits)
qed

lemma promise_all_catch_not_rejected:
  "promise_all (map (\<lambda>q. fst (catch_log q)) qs) \<noteq> Rejected e"
proof (induction qs)
  case Nil
  show ?case by simp
next
  case (Cons q qs)
  then show ?case by (cases q) (auto split: promise.splits)
qed

text \<open>
  C7. Once \<open>workspaceService.roots\<close> is fulfilled, \<open>ready\<close> is resolved exactly when
  every provider in the map at that time has settled its own \<open>ready\<close>, by fulfilment or
  by rejection; and \<open>ready\<close> is never rejected, so no provider's error propagates.
\<close>

theorem ready_tolerates_failed_providers:
  "(i_ready (init env Fulfilled roots) = Fulfilled \<longleftrightarrow>
      (\<forall>p \<in> set (map_values (i_providers (init env Fulfilled roots))). p_ready p \<noteq> Pending))
   \<and> i_ready (init env rootsPromise roots) \<noteq> Rejected e"
proof -
  define ps where "ps = map_values (r_providers (updateProviders env roots []))"
  define all where "all = promise_all (map fst (map (\<lambda>provider. catch_log (p_ready provider)) ps))"
  have all_eq: "all = promise_all (map (\<lambda>q. fst (catch_log q)) (map p_ready ps))"
    by (simp add: all_def comp_def)
  have ready: "i_ready (init env Fulfilled roots) = (case all of Fulfilled \<Rightarrow> Fulfilled | _ \<Rightarrow> Pending)"
    by (simp add: init_def Let_def all_def ps_def)
  have live: "map_values (i_providers (init env Fulfilled roots)) = ps"
    by (simp add: init_def Let_def ps_def)
  have "all = Fulfilled \<longleftrightarrow> (\<forall>p \<in> set ps. p_ready p \<noteq> Pending)"
    using promise_all_catch_fulfilled [of "map p_ready ps"] by (simp add: all_eq)
  then have a: "i_ready (init env Fulfilled roots) = Fulfilled \<longleftrightarrow> (\<forall>p \<in> set ps. p_ready p \<noteq> Pending)"
    by (cases all) (simp_all add: ready)
  have c: "i_ready (init env rootsPromise roots) \<noteq> Rejected e"
    by (cases rootsPromise) (simp_all add: init_def Let_def split: promise.splits)
  show ?thesis using a c by (simp add: live)
qed

theorem ready_tolerates_failed_providers_witness:
  "map p_ready (map_values (i_providers (init ex_env Fulfilled ex_roots)))
     = [Fulfilled, Rejected ''unreadable'', Fulfilled]
   \<and> i_ready (init ex_env Fulfilled ex_roots) = Fulfilled
   \<and> i_console (init ex_env Fulfilled ex_roots) = [''unreadable'']"
  using ready_tolerates_failed_providers [of ex_env ex_roots Fulfilled "''unreadable''"]
  by (simp add: init_def ex_roots_def up_defs ex_defs Let_def)

subsection \<open>Write routing\<close>

lemma up_to_first_Nil: "up_to_first ok [] = []"
  by (simp add: up_to_first_def)

lemma up_to_first_Cons:
  "up_to_first ok (x # xs) = (if ok x then [x] else x # up_to_first ok xs)"
  by (simp add: up_to_first_def)

lemma first_settled_Nil: "first_settled w [] = Inr False"
  by (simp add: first_settled_def)

lemma first_settled_Cons:
  "first_settled w (x # xs) = (if w x \<noteq> Inr False then w x else first_settled w xs)"
  by (simp add: first_settled_def)

lemma collect_step:
  "setPreference_collect env r cn (cp, it) p =
     ((case cp of None \<Rightarrow> map_option (getPath env) (p_getConfigUri p r) | Some c \<Rightarrow> Some c),
      (if getName env (p_getConfigUri0 p) = cn then it @ [RoundA p] else it))"
  by (cases cp; cases "p_getConfigUri p r") (simp_all add: setPreference_collect_def)

lemma collect_foldl:
  "foldl (setPreference_collect env r cn) (cp, it) cands =
     ((case cp of None \<Rightarrow> reference_path env r cands | Some c \<Rightarrow> Some c),
      it @ map RoundA (matching env cn cands))"
proof (induction cands arbitrary: cp it)
  case Nil
  show ?case by (simp add: reference_path_def matching_def split: option.splits)
next
  case (Cons p cands)
  show ?case
    by (cases cp; cases "p_getConfigUri p r")
       (simp_all add: Cons.IH collect_step reference_path_def matching_def)
qed

lemma loop_Nil:
  "setPreference_loop env n v r cp [] = \<lparr>w_result = Inr False, w_attempts = [], w_calls = 0\<rparr>"
  by simp

text \<open>A closure that returns a provider: the loop awaits its write.\<close>

lemma loop_returns:
  "fst (call_closure env r cp c) = Some p \<Longrightarrow> snd (call_closure env r cp c) = [] \<Longrightarrow>
   setPreference_loop env n v r cp (c # q) =
     (case p_setPreference p n v r of
        Inl e \<Rightarrow> \<lparr>w_result = Inl e, w_attempts = [p], w_calls = 1\<rparr>
      | Inr written \<Rightarrow>
          if written then \<lparr>w_result = Inr True, w_attempts = [p], w_calls = 1\<rparr>
          else (setPreference_loop env n v r cp q)
                 \<lparr>w_attempts := p # w_attempts (setPreference_loop env n v r cp q),
                  w_calls := Suc (w_calls (setPreference_loop env n v r cp q))\<rparr>)"
  by (simp add: Let_def split: sum.splits)

lemma loop_defers:
  "fst (call_closure env r cp c) = None \<Longrightarrow>
   setPreference_loop env n v r cp (c # q) =
     (setPreference_loop env n v r cp (q @ snd (call_closure env r cp c)))
       \<lparr>w_calls := Suc (w_calls (setPreference_loop env n v r cp (q @ snd (call_closure env r cp c))))\<rparr>"
  by (simp add: Let_def)

declare setPreference_loop.simps [simp del]

text \<open>
  What the loop does with a provider \<open>p\<close> it was handed, in terms of the description:
  the write of \<open>p\<close> settles the call unless it reports failure.
\<close>

lemma loop_awaits:
  assumes c: "fst (call_closure env r cp c) = Some p" "snd (call_closure env r cp c) = []"
    and rest: "w_result (setPreference_loop env n v r cp q) = first_settled (\<lambda>p. p_setPreference p n v r) xs
        \<and> w_attempts (setPreference_loop env n v r cp q)
            = up_to_first (\<lambda>p. p_setPreference p n v r \<noteq> Inr False) xs"
  shows "w_result (setPreference_loop env n v r cp (c # q))
           = first_settled (\<lambda>p. p_setPreference p n v r) (p # xs)
       \<and> w_attempts (setPreference_loop env n v r cp (c # q))
           = up_to_first (\<lambda>p. p_setPreference p n v r \<noteq> Inr False) (p # xs)"
proof (cases "p_setPreference p n v r")
  case (Inl e)
  then show ?thesis
    by (simp add: loop_returns [OF c] first_settled_Cons up_to_first_Cons)
next
  case (Inr written)
  then show ?thesis using rest
    by (cases written) (simp_all add: loop_returns [OF c] first_settled_Cons up_to_first_Cons)
qed

lemma loop_round_C:
  "w_result (setPreference_loop env n v r cp (map RoundC cs))
     = first_settled (\<lambda>p. p_setPreference p n v r) cs
   \<and> w_attempts (setPreference_loop env n v r cp (map RoundC cs))
       = up_to_first (\<lambda>p. p_setPreference p n v r \<noteq> Inr False) cs"
proof (induction cs)
  case Nil
  show ?case by (simp add: loop_Nil up_to_first_Nil first_settled_Nil)
next
  case (Cons c cs)
  have "w_result (setPreference_loop env n v r cp (RoundC c # map RoundC cs))
           = first_settled (\<lambda>p. p_setPreference p n v r) (c # cs)
       \<and> w_attempts (setPreference_loop env n v r cp (RoundC c # map RoundC cs))
           = up_to_first (\<lambda>p. p_setPreference p n v r \<noteq> Inr False) (c # cs)"
    by (rule loop_awaits [OF _ _ Cons.IH]) simp_all
  then show ?case by simp
qed

lemma loop_round_B:
  "w_result (setPreference_loop env n v r cp (map RoundB bs @ map RoundC cs))
     = first_settled (\<lambda>p. p_setPreference p n v r)
         (filter (\<lambda>p. Some (getPath env (p_getConfigUri0 p)) = cp) bs @ cs
          @ filter (\<lambda>p. Some (getPath env (p_getConfigUri0 p)) \<noteq> cp) bs)
   \<and> w_attempts (setPreference_loop env n v r cp (map RoundB bs @ map RoundC cs))
       = up_to_first (\<lambda>p. p_setPreference p n v r \<noteq> Inr False)
           (filter (\<lambda>p. Some (getPath env (p_getConfigUri0 p)) = cp) bs @ cs
            @ filter (\<lambda>p. Some (getPath env (p_getConfigUri0 p)) \<noteq> cp) bs)"
proof (induction bs arbitrary: cs)
  case Nil
  show ?case using loop_round_C [of env n v r cp cs] by simp
next
  case (Cons b bs)
  show ?case
  proof (cases "Some (getPath env (p_getConfigUri0 b)) = cp")
    case True
    have "fst (call_closure env r cp (RoundB b)) = Some b"
      and "snd (call_closure env r cp (RoundB b)) = []"
      using True by simp_all
    from loop_awaits [OF this Cons.IH [of cs]] True show ?thesis by simp
  next
    case False
    have "setPreference_loop env n v r cp (RoundB b # (map RoundB bs @ map RoundC cs)) =
       (setPreference_loop env n v r cp (map RoundB bs @ map RoundC (cs @ [b])))
         \<lparr>w_calls := Suc (w_calls (setPreference_loop env n v r cp (map RoundB bs @ map RoundC (cs @ [b]))))\<rparr>"
      using False loop_defers [of env r cp "RoundB b" n v "map RoundB bs @ map RoundC cs"] by simp
    then show ?thesis using Cons.IH [of "cs @ [b]"] False by simp
  qed
qed

lemma loop_round_A:
  "w_result (setPreference_loop env n v r cp (map RoundA as @ map RoundB bs))
     = first_settled (\<lambda>p. p_setPreference p n v r)
         (filter (\<lambda>p. p_getConfigUri p r \<noteq> None) as
          @ filter (\<lambda>p. Some (getPath env (p_getConfigUri0 p)) = cp)
              (bs @ filter (\<lambda>p. p_getConfigUri p r = None) as)
          @ filter (\<lambda>p. Some (getPath env (p_getConfigUri0 p)) \<noteq> cp)
              (bs @ filter (\<lambda>p. p_getConfigUri p r = None) as))
   \<and> w_attempts (setPreference_loop env n v r cp (map RoundA as @ map RoundB bs))
       = up_to_first (\<lambda>p. p_setPreference p n v r \<noteq> Inr False)
         (filter (\<lambda>p. p_getConfigUri p r \<noteq> None) as
          @ filter (\<lambda>p. Some (getPath env (p_getConfigUri0 p)) = cp)
              (bs @ filter (\<lambda>p. p_getConfigUri p r = None) as)
          @ filter (\<lambda>p. Some (getPath env (p_getConfigUri0 p)) \<noteq> cp)
              (bs @ filter (\<lambda>p. p_getConfigUri p r = None) as))"
proof (induction as arbitrary: bs)
  case Nil
  show ?case using loop_round_B [of env n v r cp bs "[]"] by simp
next
  case (Cons a as)
  show ?case
  proof (cases "p_getConfigUri a r")
    case (Some u)
    have "fst (call_closure env r cp (RoundA a)) = Some a"
      and "snd (call_closure env r cp (RoundA a)) = []"
      using Some by simp_all
    from loop_awaits [OF this Cons.IH [of bs]] Some show ?thesis by simp
  next
    case None
    have "setPreference_loop env n v r cp (RoundA a # (map RoundA as @ map RoundB bs)) =
       (setPreference_loop env n v r cp (map RoundA as @ map RoundB (bs @ [a])))
         \<lparr>w_calls := Suc (w_calls (setPreference_loop env n v r cp (map RoundA as @ map RoundB (bs @ [a]))))\<rparr>"
      using None loop_defers [of env r cp "RoundA a" n v "map RoundA as @ map RoundB bs"] by simp
    then show ?thesis using Cons.IH [of "bs @ [a]"] None by simp
  qed
qed

lemma setPreference_unfold:
  "setPreference env providers n v r =
     setPreference_loop env n v r (reference_path env r (getProviders env providers r))
       (map RoundA (matching env (configName_of env n) (getProviders env providers r)))"
  by (simp add: setPreference_def Let_def collect_foldl)

lemma setPreference_order:
  "w_result (setPreference env providers n v r)
     = first_settled (\<lambda>p. p_setPreference p n v r) (write_order env providers n r)
   \<and> w_attempts (setPreference env providers n v r)
     = up_to_first (\<lambda>p. p_setPreference p n v r \<noteq> Inr False) (write_order env providers n r)"
  using loop_round_A [of env n v r "reference_path env r (getProviders env providers r)"
      "matching env (configName_of env n) (getProviders env providers r)" "[]"]
  by (simp add: setPreference_unfold write_order_def round_A_def round_B_def round_C_def Let_def
      conj_commute)

lemma call_closure_returns:
  "fst (call_closure env r cp c) = Some p \<Longrightarrow> snd (call_closure env r cp c) = []"
  by (cases c) (auto split: if_splits)

lemma loop_calls_bound:
  "w_calls (setPreference_loop env n v r cp q) \<le> sum_list (map closure_weight q)"
proof (induction "sum_list (map closure_weight q)" arbitrary: q rule: less_induct)
  case less
  show ?case
  proof (cases q)
    case Nil
    then show ?thesis by (simp add: loop_Nil)
  next
    case (Cons c q')
    have w: "sum_list (map closure_weight (q' @ snd (call_closure env r cp c)))
               < sum_list (map closure_weight q)"
      using call_closure_weight [of env r cp c] Cons by simp
    show ?thesis
    proof (cases "fst (call_closure env r cp c)")
      case None
      have "w_calls (setPreference_loop env n v r cp (q' @ snd (call_closure env r cp c)))
              \<le> sum_list (map closure_weight (q' @ snd (call_closure env r cp c)))"
        using less w by blast
      then show ?thesis using w by (simp add: Cons loop_defers [OF None])
    next
      case (Some p)
      have e: "snd (call_closure env r cp c) = []"
        using Some by (rule call_closure_returns)
      have "w_calls (setPreference_loop env n v r cp q') \<le> sum_list (map closure_weight q')"
        using less w e by simp
      moreover have "0 < closure_weight c" by (cases c) simp_all
      ultimately show ?thesis
        by (simp add: Cons loop_returns [OF Some e] split: sum.splits)
    qed
  qed
qed

lemma mset_up_to_first: "mset (up_to_first ok xs) \<subseteq># mset xs"
proof (induction xs)
  case Nil
  show ?case by (simp add: up_to_first_Nil)
next
  case (Cons x xs)
  then show ?case by (simp add: up_to_first_Cons)
qed

lemma mset_write_order:
  "mset (write_order env providers n r)
     = mset (matching env (configName_of env n) (getProviders env providers r))"
proof -
  have three: "mset (filter P ms) + (mset (filter (\<lambda>p. \<not> P p \<and> Q p) ms)
                 + mset (filter (\<lambda>p. \<not> P p \<and> \<not> Q p) ms)) = mset ms"
    for P Q :: "'b \<Rightarrow> bool" and ms
    by (induction ms) auto
  show ?thesis
    using three [of "\<lambda>p. p_getConfigUri p r \<noteq> None"
        "matching env (configName_of env n) (getProviders env providers r)"
        "\<lambda>p. Some (getPath env (p_getConfigUri0 p))
               = reference_path env r (getProviders env providers r)"]
    by (simp add: write_order_def round_A_def round_B_def round_C_def Let_def)
qed

lemma first_settled_no_throw:
  "\<forall>x\<in>set xs. \<forall>e. w x \<noteq> Inl e \<Longrightarrow> first_settled w xs = Inr (list_ex (\<lambda>x. w x = Inr True) xs)"
proof (induction xs)
  case Nil
  show ?case by (simp add: first_settled_Nil)
next
  case (Cons x xs)
  then show ?case by (cases "w x") (auto simp: first_settled_Cons)
qed

text \<open>
  C2, as the code has it. \<open>setPreference\<close> awaits the writes of the candidates whose
  Config Name is the target name in the order round A, round B, round C, each round in
  canonical order, where round B and round C hold providers not yet tried. It goes on
  while the writes report failure and stops at the first write that does anything else:
  the writes awaited are the providers of that order up to and including that one, and
  the call ends as that write ends, resolving to true when it reports success and
  rejecting when it rejects. When every write of the order reports failure, in
  particular when no candidate has the target name, the call resolves to false. So
  when no write of the order rejects, the call resolves to true exactly if some write of
  the order reports success.
\<close>

theorem setPreference_three_rounds:
  "w_attempts (setPreference env providers preferenceName v resourceUri)
     = takeWhile (\<lambda>p. p_setPreference p preferenceName v resourceUri = Inr False)
         (write_order env providers preferenceName resourceUri)
       @ take 1 (dropWhile (\<lambda>p. p_setPreference p preferenceName v resourceUri = Inr False)
           (write_order env providers preferenceName resourceUri))
   \<and> w_result (setPreference env providers preferenceName v resourceUri)
     = (case find (\<lambda>p. p_setPreference p preferenceName v resourceUri \<noteq> Inr False)
               (write_order env providers preferenceName resourceUri) of
          None \<Rightarrow> Inr False
        | Some p \<Rightarrow> p_setPreference p preferenceName v resourceUri)
   \<and> ((\<forall>p \<in> set (write_order env providers preferenceName resourceUri).
          \<forall>e. p_setPreference p preferenceName v resourceUri \<noteq> Inl e)
        \<longrightarrow> w_result (setPreference env providers preferenceName v resourceUri)
            = Inr (list_ex (\<lambda>p. p_setPreference p preferenceName v resourceUri = Inr True)
                     (write_order env providers preferenceName resourceUri)))
   \<and> (matching env (configName_of env preferenceName) (getProviders env providers resourceUri) = []
        \<longrightarrow> w_result (setPreference env providers preferenceName v resourceUri) = Inr False)"
proof -
  let ?w = "\<lambda>p. p_setPreference p preferenceName v resourceUri"
  let ?order = "write_order env providers preferenceName resourceUri"
  note o = setPreference_order [of env providers preferenceName v resourceUri]
  have a: "w_attempts (setPreference env providers preferenceName v resourceUri)
     = takeWhile (\<lambda>p. ?w p = Inr False) ?order @ take 1 (dropWhile (\<lambda>p. ?w p = Inr False) ?order)"
    using o by (simp add: up_to_first_def)
  have b: "w_result (setPreference env providers preferenceName v resourceUri)
     = (case find (\<lambda>p. ?w p \<noteq> Inr False) ?order of None \<Rightarrow> Inr False | Some p \<Rightarrow> ?w p)"
    using o by (simp add: first_settled_def)
  have c: "w_result (setPreference env providers preferenceName v resourceUri)
            = Inr (list_ex (\<lambda>p. ?w p = Inr True) ?order)"
    if "\<forall>p \<in> set ?order. \<forall>e. ?w p \<noteq> Inl e"
    using o first_settled_no_throw [OF that] by simp
  have "?order = []"
    if "matching env (configName_of env preferenceName) (getProviders env providers resourceUri) = []"
    using that by (simp add: write_order_def round_A_def round_B_def round_C_def Let_def)
  then have d: "w_result (setPreference env providers preferenceName v resourceUri) = Inr False"
    if "matching env (configName_of env preferenceName) (getProviders env providers resourceUri) = []"
    using that o by (simp add: first_settled_Nil)
  show ?thesis using a b c d by blast
qed

text \<open>
  C2 as stated fails. The three candidates named \<open>settings\<close> are tried in the order
  \<open>ex_qt\<close>, \<open>ex_qb\<close>, \<open>ex_qa\<close>. The write of \<open>ex_qt\<close> rejects: the call rejects after
  this one write. It neither goes on to round B and round C, where the write of \<open>ex_qa\<close>
  would report success, nor returns false.
\<close>

theorem setPreference_rejected_write_counterexample:
  "getProviders ex_env ex_throw (Some ''/a/x'') = [ex_qa, ex_qb, ex_qt, ex_launch]
   \<and> configName_of ex_env ''editor.tabSize'' = ''settings''
   \<and> getName ex_env (p_getConfigUri0 ex_qa) = ''settings''
   \<and> getName ex_env (p_getConfigUri0 ex_qb) = ''settings''
   \<and> getName ex_env (p_getConfigUri0 ex_qt) = ''settings''
   \<and> p_getConfigUri ex_qt (Some ''/a/x'') = Some ''/a/n/.t/settings''
   \<and> p_setPreference ex_qt ''editor.tabSize'' 8 (Some ''/a/x'') = Inl ''EACCES''
   \<and> p_setPreference ex_qb ''editor.tabSize'' 8 (Some ''/a/x'') = Inr False
   \<and> p_setPreference ex_qa ''editor.tabSize'' 8 (Some ''/a/x'') = Inr True
   \<and> w_attempts (setPreference ex_env ex_throw ''editor.tabSize'' 8 (Some ''/a/x'')) = [ex_qt]
   \<and> w_result (setPreference ex_env ex_throw ''editor.tabSize'' 8 (Some ''/a/x'')) = Inl ''EACCES''"
proof -
  have cands: "getProviders ex_env ex_throw (Some ''/a/x'') = [ex_qa, ex_qb, ex_qt, ex_launch]"
    by (simp add: t_defs ex_defs gp_defs)
  have names: "configName_of ex_env ''editor.tabSize'' = ''settings''"
    "getName ex_env (p_getConfigUri0 ex_qa) = ''settings''"
    "getName ex_env (p_getConfigUri0 ex_qb) = ''settings''"
    "getName ex_env (p_getConfigUri0 ex_qt) = ''settings''"
    "p_getConfigUri ex_qt (Some ''/a/x'') = Some ''/a/n/.t/settings''"
    by (simp_all add: t_defs ex_defs configName_of_def sectionName_of_def)
  have writes: "p_setPreference ex_qt ''editor.tabSize'' 8 (Some ''/a/x'') = Inl ''EACCES''"
    "p_setPreference ex_qb ''editor.tabSize'' 8 (Some ''/a/x'') = Inr False"
    "p_setPreference ex_qa ''editor.tabSize'' 8 (Some ''/a/x'') = Inr True"
    by (simp_all add: t_defs ex_provider_def)
  have order: "write_order ex_env ex_throw ''editor.tabSize'' (Some ''/a/x'') = [ex_qt, ex_qb, ex_qa]"
    by (simp add: t_defs ex_defs gp_defs sp_defs)
  have "w_attempts (setPreference ex_env ex_throw ''editor.tabSize'' 8 (Some ''/a/x'')) = [ex_qt]
      \<and> w_result (setPreference ex_env ex_throw ''editor.tabSize'' 8 (Some ''/a/x'')) = Inl ''EACCES''"
    using setPreference_order [of ex_env ex_throw "''editor.tabSize''" 8 "Some ''/a/x''"]
    unfolding order using writes by (simp add: up_to_first_Cons first_settled_Cons)
  then show ?thesis using cands names writes by blast
qed

theorem setPreference_three_rounds_witness:
  "write_order ex_env ex_rounds ''editor.tabSize'' (Some ''/a/x'') = [ex_qc, ex_qb, ex_qa]
   \<and> p_setPreference ex_qc ''editor.tabSize'' 8 (Some ''/a/x'') = Inr False
   \<and> p_setPreference ex_qb ''editor.tabSize'' 8 (Some ''/a/x'') = Inr False
   \<and> p_setPreference ex_qa ''editor.tabSize'' 8 (Some ''/a/x'') = Inr True
   \<and> w_attempts (setPreference ex_env ex_rounds ''editor.tabSize'' 8 (Some ''/a/x''))
     = [ex_qc, ex_qb, ex_qa]
   \<and> w_result (setPreference ex_env ex_rounds ''editor.tabSize'' 8 (Some ''/a/x'')) = Inr True
   \<and> matching ex_env (configName_of ex_env ''tasks.label'') (getProviders ex_env ex_rounds (Some ''/a/x'')) = []
   \<and> w_result (setPreference ex_env ex_rounds ''tasks.label'' 8 (Some ''/a/x'')) = Inr False"
proof -
  have order: "write_order ex_env ex_rounds ''editor.tabSize'' (Some ''/a/x'') = [ex_qc, ex_qb, ex_qa]"
    by (simp add: q_defs ex_defs gp_defs sp_defs)
  have writes: "p_setPreference ex_qc ''editor.tabSize'' 8 (Some ''/a/x'') = Inr False"
    "p_setPreference ex_qb ''editor.tabSize'' 8 (Some ''/a/x'') = Inr False"
    "p_setPreference ex_qa ''editor.tabSize'' 8 (Some ''/a/x'') = Inr True"
    by (simp_all add: q_defs ex_provider_def)
  have none: "matching ex_env (configName_of ex_env ''tasks.label'')
                (getProviders ex_env ex_rounds (Some ''/a/x'')) = []"
    by (simp add: q_defs ex_defs gp_defs sp_defs)
  have nothrow: "\<forall>p \<in> set [ex_qc, ex_qb, ex_qa]. \<forall>e.
                   p_setPreference p ''editor.tabSize'' 8 (Some ''/a/x'') \<noteq> Inl e"
    using writes by simp
  note t = setPreference_three_rounds [of ex_env ex_rounds "''editor.tabSize''" 8 "Some ''/a/x''",
      unfolded order]
  have a: "w_attempts (setPreference ex_env ex_rounds ''editor.tabSize'' 8 (Some ''/a/x''))
             = [ex_qc, ex_qb, ex_qa]"
    using t writes by simp
  have "w_result (setPreference ex_env ex_rounds ''editor.tabSize'' 8 (Some ''/a/x''))
          = Inr (list_ex (\<lambda>p. p_setPreference p ''editor.tabSize'' 8 (Some ''/a/x'') = Inr True)
                   [ex_qc, ex_qb, ex_qa])"
    using t nothrow by blast
  then have b: "w_result (setPreference ex_env ex_rounds ''editor.tabSize'' 8 (Some ''/a/x'')) = Inr True"
    using writes by simp
  have c: "w_result (setPreference ex_env ex_rounds ''tasks.label'' 8 (Some ''/a/x'')) = Inr False"
    using setPreference_three_rounds [of ex_env ex_rounds "''tasks.label''" 8 "Some ''/a/x''"] none
    by blast
  show ?thesis using order writes a b c none by blast
qed

text \<open>
  C9. In a call of \<open>setPreference\<close> the writes awaited form a sub-multiset of the
  candidates with the target name: no such provider is written more often than it
  occurs among the candidates, so a provider of round A whose write failed is not tried
  again in round B or C, whatever its path. The loop over the closure queue is total
  (its definition carries the termination proof) and calls at most three closures per
  matching candidate.
\<close>

theorem setPreference_writes_at_most_once:
  "mset (w_attempts (setPreference env providers preferenceName v resourceUri))
     \<subseteq># mset (matching env (configName_of env preferenceName)
                 (getProviders env providers resourceUri))
   \<and> w_calls (setPreference env providers preferenceName v resourceUri)
       \<le> 3 * length (matching env (configName_of env preferenceName)
                       (getProviders env providers resourceUri))"
proof
  show "mset (w_attempts (setPreference env providers preferenceName v resourceUri))
     \<subseteq># mset (matching env (configName_of env preferenceName)
                 (getProviders env providers resourceUri))"
    using setPreference_order [of env providers preferenceName v resourceUri]
      mset_up_to_first [of "\<lambda>p. p_setPreference p preferenceName v resourceUri \<noteq> Inr False"
        "write_order env providers preferenceName resourceUri"]
    by (simp add: mset_write_order)
next
  have "sum_list (map closure_weight (map RoundA ms)) = 3 * length ms"
    for ms :: "'a FolderPreferenceProvider list"
    by (induction ms) simp_all
  then show "w_calls (setPreference env providers preferenceName v resourceUri)
       \<le> 3 * length (matching env (configName_of env preferenceName)
                       (getProviders env providers resourceUri))"
    using loop_calls_bound [of env preferenceName v resourceUri
        "reference_path env resourceUri (getProviders env providers resourceUri)"
        "map RoundA (matching env (configName_of env preferenceName)
                       (getProviders env providers resourceUri))"]
    by (simp add: setPreference_unfold)
qed

text \<open>
  In the call on \<open>ex_rounds\<close> above, \<open>ex_qc\<close> is in round A, its write fails and its
  path is the reference path: it is written once.
\<close>

theorem setPreference_writes_at_most_once_witness:
  "matching ex_env (configName_of ex_env ''editor.tabSize'') (getProviders ex_env ex_rounds (Some ''/a/x''))
     = [ex_qa, ex_qb, ex_qc]
   \<and> p_getConfigUri ex_qc (Some ''/a/x'') = Some ''/a/n/.t/settings''
   \<and> p_setPreference ex_qc ''editor.tabSize'' 8 (Some ''/a/x'') = Inr False
   \<and> Some (getPath ex_env (p_getConfigUri0 ex_qc))
       = reference_path ex_env (Some ''/a/x'') (getProviders ex_env ex_rounds (Some ''/a/x''))
   \<and> count (mset (w_attempts (setPreference ex_env ex_rounds ''editor.tabSize'' 8 (Some ''/a/x'')))) ex_qc \<le> 1
   \<and> length (w_attempts (setPreference ex_env ex_rounds ''editor.tabSize'' 8 (Some ''/a/x''))) \<le> 3
   \<and> w_calls (setPreference ex_env ex_rounds ''editor.tabSize'' 8 (Some ''/a/x'')) \<le> 9"
proof -
  let ?attempts = "w_attempts (setPreference ex_env ex_rounds ''editor.tabSize'' 8 (Some ''/a/x''))"
  let ?ms = "matching ex_env (configName_of ex_env ''editor.tabSize'')
               (getProviders ex_env ex_rounds (Some ''/a/x''))"
  have ms: "?ms = [ex_qa, ex_qb, ex_qc]"
    by (simp add: q_defs ex_defs gp_defs sp_defs)
  have qc1: "p_getConfigUri ex_qc (Some ''/a/x'') = Some ''/a/n/.t/settings''"
    and qc2: "p_setPreference ex_qc ''editor.tabSize'' 8 (Some ''/a/x'') = Inr False"
    by (simp_all add: q_defs ex_provider_def)
  have qc3: "Some (getPath ex_env (p_getConfigUri0 ex_qc))
       = reference_path ex_env (Some ''/a/x'') (getProviders ex_env ex_rounds (Some ''/a/x''))"
    by (simp add: q_defs ex_defs gp_defs sp_defs)
  have "p_getConfigUri0 ex_qa \<noteq> p_getConfigUri0 ex_qc" "p_getConfigUri0 ex_qb \<noteq> p_getConfigUri0 ex_qc"
    by (simp_all add: q_defs ex_provider_def)
  then have ne: "ex_qa \<noteq> ex_qc" "ex_qb \<noteq> ex_qc" by auto
  have both: "mset ?attempts \<subseteq># mset ?ms
      \<and> w_calls (setPreference ex_env ex_rounds ''editor.tabSize'' 8 (Some ''/a/x'')) \<le> 3 * length ?ms"
    by (rule setPreference_writes_at_most_once)
  then have sub: "mset ?attempts \<subseteq># mset [ex_qa, ex_qb, ex_qc]"
    and calls: "w_calls (setPreference ex_env ex_rounds ''editor.tabSize'' 8 (Some ''/a/x'')) \<le> 9"
    unfolding ms by simp_all
  have "count (mset ?attempts) ex_qc \<le> count (mset [ex_qa, ex_qb, ex_qc]) ex_qc"
    using sub by (rule mset_subset_eq_count)
  then have once: "count (mset ?attempts) ex_qc \<le> 1"
    using ne by simp
  have "size (mset ?attempts) \<le> size (mset [ex_qa, ex_qb, ex_qc])"
    using sub by (rule size_mset_mono)
  then have len: "length ?attempts \<le> 3" by simp
  show ?thesis
    by (intro conjI) (rule ms qc1 qc2 qc3 once len calls)+
qed

subsection \<open>Reconciliation\<close>

lemma map_set_fresh: "k \<notin> set (map fst m) \<Longrightarrow> map_set m k p = m @ [(k, p)]"
  by (induction m) auto

lemma config_step:
  "updateProviders_config env f (ps, td, cr) c =
     (if c \<in> set (map fst ps) then (ps, removeAll c td, cr)
      else (ps @ [(c, factory env f c)], removeAll c td, cr @ [factory env f c]))"
  by (simp add: updateProviders_config_def map_has_def Let_def map_set_fresh)

lemma config_fold:
  "foldl (updateProviders_config env f) (ps, td, cr) cs = (ps', td', cr') \<Longrightarrow>
   set (map fst ps') = set (map fst ps) \<union> set cs
   \<and> set td' = set td - set cs
   \<and> set ps' \<subseteq> set ps \<union> {(c, factory env f c) | c. c \<in> set cs}
   \<and> (set cs \<subseteq> set (map fst ps) \<longrightarrow> ps' = ps \<and> cr' = cr)"
proof (induction cs arbitrary: ps td cr)
  case Nil
  then show ?case by simp
next
  case (Cons c cs)
  show ?case
  proof (cases "c \<in> set (map fst ps)")
    case True
    then have "foldl (updateProviders_config env f) (ps, removeAll c td, cr) cs = (ps', td', cr')"
      using Cons.prems by (simp add: config_step)
    from Cons.IH [OF this] True show ?thesis by auto
  next
    case False
    then have "foldl (updateProviders_config env f)
                 (ps @ [(c, factory env f c)], removeAll c td, cr @ [factory env f c]) cs
               = (ps', td', cr')"
      using Cons.prems by (simp add: config_step)
    from Cons.IH [OF this] False show ?thesis by auto
  qed
qed

lemma folder_fold:
  "foldl (updateProviders_folder env) (ps, td, cr) fs = (ps', td', cr') \<Longrightarrow>
   set (map fst ps') = set (map fst ps) \<union> set (universe env fs)
   \<and> set td' = set td - set (universe env fs)
   \<and> set ps' \<subseteq> set ps \<union> {(c, factory env f c) | f c. f \<in> set fs \<and> c \<in> set (getUris env (uri f))}
   \<and> (set (universe env fs) \<subseteq> set (map fst ps) \<longrightarrow> ps' = ps \<and> cr' = cr)"
proof (induction fs arbitrary: ps td cr)
  case Nil
  then show ?case by (simp add: universe_def)
next
  case (Cons f fs)
  obtain ps1 td1 cr1 where
    one: "foldl (updateProviders_config env f) (ps, td, cr) (getUris env (uri f)) = (ps1, td1, cr1)"
    by (cases "foldl (updateProviders_config env f) (ps, td, cr) (getUris env (uri f))") auto
  then have "updateProviders_folder env (ps, td, cr) f = (ps1, td1, cr1)"
    by (simp add: updateProviders_folder_def)
  then have rest: "foldl (updateProviders_folder env) (ps1, td1, cr1) fs = (ps', td', cr')"
    using Cons.prems by simp
  note a = config_fold [OF one]
  note b = Cons.IH [OF rest]
  have u: "universe env (f # fs) = getUris env (uri f) @ universe env fs"
    by (simp add: universe_def)
  have k: "set (map fst ps') = set (map fst ps) \<union> set (universe env (f # fs))"
    using a b u by auto
  have t: "set td' = set td - set (universe env (f # fs))"
    using a b u by auto
  have e: "set ps' \<subseteq> set ps \<union> {(c, factory env g c) | g c. g \<in> set (f # fs) \<and> c \<in> set (getUris env (uri g))}"
  proof
    fix x assume "x \<in> set ps'"
    then have "x \<in> set ps1 \<or> x \<in> {(c, factory env g c) | g c. g \<in> set fs \<and> c \<in> set (getUris env (uri g))}"
      using b by blast
    moreover have "x \<in> set ps1 \<Longrightarrow> x \<in> set ps \<or> x \<in> {(c, factory env f c) | c. c \<in> set (getUris env (uri f))}"
      using a by blast
    ultimately show "x \<in> set ps \<union> {(c, factory env g c) | g c. g \<in> set (f # fs) \<and> c \<in> set (getUris env (uri g))}"
      by auto
  qed
  have s: "set (universe env (f # fs)) \<subseteq> set (map fst ps) \<longrightarrow> ps' = ps \<and> cr' = cr"
  proof
    assume h: "set (universe env (f # fs)) \<subseteq> set (map fst ps)"
    then have "ps1 = ps \<and> cr1 = cr" using a u by simp
    moreover from this h have "set (universe env fs) \<subseteq> set (map fst ps1)" using u by simp
    ultimately show "ps' = ps \<and> cr' = cr" using b by simp
  qed
  show ?case using k t e s by blast
qed

lemma dispose_step:
  "fst (updateProviders_dispose (ps, d) k) = filter (\<lambda>e. fst e \<noteq> k) ps"
proof (cases "map_of ps k")
  case None
  then have "k \<notin> fst ` set ps" by (simp add: map_of_eq_None_iff)
  then have "filter (\<lambda>e. fst e \<noteq> k) ps = ps" by (auto simp: filter_id_conv)
  then show ?thesis using None by (simp add: updateProviders_dispose_def map_get_def)
next
  case (Some p)
  then show ?thesis by (simp add: updateProviders_dispose_def map_get_def map_delete_def)
qed

lemma dispose_fold:
  "fst (foldl updateProviders_dispose (ps, d) ks) = filter (\<lambda>e. fst e \<notin> set ks) ps"
proof (induction ks arbitrary: ps d)
  case Nil
  show ?case by simp
next
  case (Cons k ks)
  obtain ps1 d1 where st: "updateProviders_dispose (ps, d) k = (ps1, d1)"
    by (cases "updateProviders_dispose (ps, d) k") auto
  then have "ps1 = filter (\<lambda>e. fst e \<noteq> k) ps"
    using dispose_step [of ps d k] by simp
  then show ?case using Cons.IH [of ps1 d1] st by (simp add: conj_commute)
qed

lemma updateProviders_result:
  "\<exists>ps' td'. set (map fst ps') = set (map fst providers) \<union> set (universe env roots)
      \<and> set td' = set (map fst providers) - set (universe env roots)
      \<and> set ps' \<subseteq> set providers \<union> {(c, factory env f c) | f c. f \<in> set roots \<and> c \<in> set (getUris env (uri f))}
      \<and> r_providers (updateProviders env roots providers) = filter (\<lambda>e. fst e \<notin> set td') ps'"
proof -
  obtain ps' td' cr' where
    added: "foldl (updateProviders_folder env) (providers, map_keys providers, []) roots = (ps', td', cr')"
    by (cases "foldl (updateProviders_folder env) (providers, map_keys providers, []) roots") auto
  note f = folder_fold [OF added, unfolded map_keys_def]
  have r: "r_providers (updateProviders env roots providers) = filter (\<lambda>e. fst e \<notin> set td') ps'"
    by (simp add: updateProviders_def Let_def added dispose_fold)
  have "set (map fst ps') = set (map fst providers) \<union> set (universe env roots)
      \<and> set td' = set (map fst providers) - set (universe env roots)
      \<and> set ps' \<subseteq> set providers \<union> {(c, factory env f c) | f c. f \<in> set roots \<and> c \<in> set (getUris env (uri f))}
      \<and> r_providers (updateProviders env roots providers) = filter (\<lambda>e. fst e \<notin> set td') ps'"
    using f r by blast
  then show ?thesis by blast
qed

lemma updateProviders_keys:
  "set (map fst (r_providers (updateProviders env roots providers))) = set (universe env roots)"
proof -
  obtain ps' td' where
    k: "set (map fst ps') = set (map fst providers) \<union> set (universe env roots)"
    and t: "set td' = set (map fst providers) - set (universe env roots)"
    and r: "r_providers (updateProviders env roots providers) = filter (\<lambda>e. fst e \<notin> set td') ps'"
    using updateProviders_result [of providers env roots] by blast
  have "set (map fst (filter (\<lambda>e. fst e \<notin> set td') ps')) = set (map fst ps') - set td'"
    by auto
  then show ?thesis using k t r by auto
qed

lemma updateProviders_stable:
  assumes "set (map fst providers) = set (universe env roots)"
  shows "updateProviders env roots providers
           = \<lparr>r_providers = providers, r_created = [], r_disposed = []\<rparr>"
proof -
  obtain ps' td' cr' where
    added: "foldl (updateProviders_folder env) (providers, map_keys providers, []) roots = (ps', td', cr')"
    by (cases "foldl (updateProviders_folder env) (providers, map_keys providers, []) roots") auto
  note f = folder_fold [OF added]
  have "ps' = providers \<and> cr' = []" using f assms by simp
  moreover have "set td' = {}" using f assms by (simp add: map_keys_def)
  ultimately show ?thesis by (simp add: updateProviders_def Let_def added)
qed

text \<open>
  C6. \<open>updateProviders\<close> is idempotent: run again on the map a first run produced, with
  the same roots and the same enumeration of config URIs, it creates no provider,
  disposes no provider and leaves the map as it is.
\<close>

theorem updateProviders_idempotent:
  "updateProviders env roots (r_providers (updateProviders env roots providers))
     = \<lparr>r_providers = r_providers (updateProviders env roots providers),
        r_created = [], r_disposed = []\<rparr>"
  by (rule updateProviders_stable) (rule updateProviders_keys)

lemma ex_first: "map fst (r_providers (updateProviders ex_env ex_roots ex_tie)) 
   = [''/a/.t/settings'', ''/a/.t/launch'', ''/b/.t/settings'']
  \<and> map p_getConfigUri0 (r_created (updateProviders ex_env ex_roots ex_tie)) = [''/a/.t/launch'', ''/b/.t/settings'']
  \<and> map p_getConfigUri0 (r_disposed (updateProviders ex_env ex_roots ex_tie)) = [''/a//.t/settings'']"
  by (simp add: ex_roots_def ex_tie_def up_defs ex_defs Let_def)

theorem updateProviders_idempotent_witness:
  "map p_getConfigUri0 (r_created (updateProviders ex_env ex_roots ex_tie)) = [''/a/.t/launch'', ''/b/.t/settings'']
   \<and> map p_getConfigUri0 (r_disposed (updateProviders ex_env ex_roots ex_tie)) = [''/a//.t/settings'']
   \<and> r_created (updateProviders ex_env ex_roots (r_providers (updateProviders ex_env ex_roots ex_tie))) = []
   \<and> r_disposed (updateProviders ex_env ex_roots (r_providers (updateProviders ex_env ex_roots ex_tie))) = []
   \<and> r_providers (updateProviders ex_env ex_roots (r_providers (updateProviders ex_env ex_roots ex_tie)))
       = r_providers (updateProviders ex_env ex_roots ex_tie)"
  using updateProviders_idempotent [of ex_env ex_roots ex_tie] ex_first by simp

subsection \<open>The domain\<close>

text \<open>
  C5, as the code has it. \<open>getDomain\<close> returns the URIs of the roots the workspace
  service reports; it does not read the provider map. Suppose the factory binds a
  provider to the folder it is created for, no config URI is enumerated for two
  different folder URIs, and the registry is keyed by folder. Then after
  \<open>updateProviders\<close> the registry is keyed by folder again, every provider is bound to
  a folder of the domain, and the bound folders are exactly the domain when every root
  has at least one config URI.
\<close>

theorem getDomain_covers_bound_folders:
  assumes binds: "\<And>folder configUri. p_folderUri (factory env folder configUri) = uri folder"
    and apart: "\<And>u u'. u \<noteq> u' \<Longrightarrow> set (getUris env u) \<inter> set (getUris env u') = {}"
    and inv: "keyed_by_folder env providers"
  shows "keyed_by_folder env (r_providers (updateProviders env roots providers))
       \<and> bound_folders (r_providers (updateProviders env roots providers)) \<subseteq> set (getDomain roots)
       \<and> ((\<forall>folder \<in> set roots. getUris env (uri folder) \<noteq> []) \<longrightarrow>
            bound_folders (r_providers (updateProviders env roots providers)) = set (getDomain roots))"
proof -
  let ?res = "r_providers (updateProviders env roots providers)"
  obtain ps' td' where
    e: "set ps' \<subseteq> set providers \<union>
          {(c, factory env f c) | f c. f \<in> set roots \<and> c \<in> set (getUris env (uri f))}"
    and r: "?res = filter (\<lambda>e. fst e \<notin> set td') ps'"
    using updateProviders_result [of providers env roots] by blast
  have keys: "set (map fst ?res) = set (universe env roots)"
    by (rule updateProviders_keys)
  have entry: "fst x \<in> set (getUris env (p_folderUri (snd x)))" if "x \<in> set ?res" for x
  proof -
    from that r have "x \<in> set ps'" by simp
    with e consider "x \<in> set providers"
      | f c where "x = (c, factory env f c)" "c \<in> set (getUris env (uri f))"
      by blast
    then show ?thesis
    proof cases
      case 1
      then show ?thesis using inv by (simp add: keyed_by_folder_def list_all_iff)
    next
      case 2
      then show ?thesis by (simp add: binds)
    qed
  qed
  have inv': "keyed_by_folder env ?res"
    using entry by (simp add: keyed_by_folder_def list_all_iff)
  have same: "u = u'" if "c \<in> set (getUris env u)" "c \<in> set (getUris env u')" for c u u'
    using that apart [of u u'] by blast
  have sub: "bound_folders ?res \<subseteq> set (getDomain roots)"
  proof
    fix u assume "u \<in> bound_folders ?res"
    then obtain x where x: "x \<in> set ?res" "u = p_folderUri (snd x)"
      by (auto simp: bound_folders_def map_values_def)
    then have "fst x \<in> set (universe env roots)" using keys by force
    then obtain f where f: "f \<in> set roots" "fst x \<in> set (getUris env (uri f))"
      by (auto simp: universe_def)
    have "u = uri f" using same [OF _ f(2)] entry [OF x(1)] x(2) by simp
    then show "u \<in> set (getDomain roots)" using f(1) by (simp add: getDomain_def)
  qed
  have sup: "set (getDomain roots) \<subseteq> bound_folders ?res"
    if all: "\<forall>folder \<in> set roots. getUris env (uri folder) \<noteq> []"
  proof
    fix u assume "u \<in> set (getDomain roots)"
    then obtain f where f: "f \<in> set roots" "u = uri f" by (auto simp: getDomain_def)
    then obtain c where c: "c \<in> set (getUris env (uri f))"
      using all by (cases "getUris env (uri f)") auto
    then have "c \<in> set (universe env roots)" using f(1) by (auto simp: universe_def)
    then have "c \<in> set (map fst ?res)" using keys by simp
    then obtain x where x: "x \<in> set ?res" "fst x = c" by auto
    have "p_folderUri (snd x) = uri f" using same [OF _ c] entry [OF x(1)] x(2) by simp
    then show "u \<in> bound_folders ?res"
      using x(1) f(2) by (force simp: bound_folders_def map_values_def)
  qed
  show ?thesis using inv' sub sup by blast
qed

text \<open>
  C5 as stated fails: a root for which no config URI is enumerated is in the domain,
  and no provider is bound to it.
\<close>

theorem getDomain_root_without_config_counterexample:
  "getUris ex_env ''/c'' = []
   \<and> getDomain [\<lparr>uri = ''/c''\<rparr>] = [''/c'']
   \<and> map_values (r_providers (updateProviders ex_env [\<lparr>uri = ''/c''\<rparr>] [])) = []"
  by (simp add: getDomain_def up_defs ex_defs Let_def)

theorem getDomain_covers_bound_folders_witness:
  "keyed_by_folder ex_env []
   \<and> list_all (\<lambda>folder. getUris ex_env (uri folder) \<noteq> []) ex_roots
   \<and> bound_folders (r_providers (updateProviders ex_env ex_roots [])) = set (getDomain ex_roots)"
proof -
  have binds: "\<And>folder configUri. p_folderUri (factory ex_env folder configUri) = uri folder"
    by (simp add: ex_defs)
  have apart: "\<And>u u'. u \<noteq> u' \<Longrightarrow> set (getUris ex_env u) \<inter> set (getUris ex_env u') = {}"
    by (auto simp: ex_env_def split: if_splits)
  have inv: "keyed_by_folder ex_env []"
    by (simp add: keyed_by_folder_def)
  have all: "\<forall>folder \<in> set ex_roots. getUris ex_env (uri folder) \<noteq> []"
    by (simp add: ex_roots_def ex_defs)
  from getDomain_covers_bound_folders [of ex_env "[]" ex_roots, OF binds apart inv] all
  have "bound_folders (r_providers (updateProviders ex_env ex_roots [])) = set (getDomain ex_roots)"
    by blast
  then show ?thesis using inv all
    by (simp add: list_all_iff)
qed

end
